theory Spec2Isabelle
  imports Main
begin

section \<open>The OCR field-extraction service (src/services/ocrService.ts)\<close>

text \<open>
  A JavaScript string is modelled as a \<^typ>\<open>string\<close>: one \<^typ>\<open>char\<close> per code unit,
  for code units below 256 (the Latin-1 range).  An optional attribute of the
  \<open>ParsedData\<close> interface is a \<^typ>\<open>string option\<close>; \<open>None\<close> is the absent
  attribute (\<open>undefined\<close>).
\<close>

subsection \<open>Data model\<close>

record ParsedData =
  studentName :: "string option"
  studentRoll :: "string option"
  certificateNumber :: "string option"
  institutionName :: "string option"
  courseName :: "string option"
  marks :: "string option"
  dateIssued :: "string option"
  uin :: "string option"

definition emptyParsed :: ParsedData where
  "emptyParsed = \<lparr>studentName = None, studentRoll = None, certificateNumber = None,
     institutionName = None, courseName = None, marks = None, dateIssued = None, uin = None\<rparr>"

text \<open>The keys of \<open>ParsedData\<close>, for the code that indexes the record by a field name.\<close>

datatype field = StudentName | StudentRoll | CertificateNumber | InstitutionName
  | CourseName | Marks | DateIssued | Uin

fun getField :: "field \<Rightarrow> ParsedData \<Rightarrow> string option" where
  "getField StudentName e = studentName e"
| "getField StudentRoll e = studentRoll e"
| "getField CertificateNumber e = certificateNumber e"
| "getField InstitutionName e = institutionName e"
| "getField CourseName e = courseName e"
| "getField Marks e = marks e"
| "getField DateIssued e = dateIssued e"
| "getField Uin e = uin e"

fun setField :: "field \<Rightarrow> string \<Rightarrow> ParsedData \<Rightarrow> ParsedData" where
  "setField StudentName v e = e\<lparr>studentName := Some v\<rparr>"
| "setField StudentRoll v e = e\<lparr>studentRoll := Some v\<rparr>"
| "setField CertificateNumber v e = e\<lparr>certificateNumber := Some v\<rparr>"
| "setField InstitutionName v e = e\<lparr>institutionName := Some v\<rparr>"
| "setField CourseName v e = e\<lparr>courseName := Some v\<rparr>"
| "setField Marks v e = e\<lparr>marks := Some v\<rparr>"
| "setField DateIssued v e = e\<lparr>dateIssued := Some v\<rparr>"
| "setField Uin v e = e\<lparr>uin := Some v\<rparr>"

text \<open>JavaScript truthiness of an optional string: \<open>undefined\<close> and \<open>""\<close> are falsy.\<close>

definition truthy :: "string option \<Rightarrow> bool" where
  "truthy v = (case v of None \<Rightarrow> False | Some s \<Rightarrow> s \<noteq> [])"

subsection \<open>Characters\<close>

definition in_range :: "char \<Rightarrow> char \<Rightarrow> char \<Rightarrow> bool" where
  "in_range lo hi c = ((of_char lo :: nat) \<le> of_char c \<and> (of_char c :: nat) \<le> of_char hi)"

text \<open>
  The white space of \<open>\s\<close> and of \<open>trim\<close> below 256: TAB, LF, VT, FF, CR, space
  and the no-break space.
\<close>

definition is_space :: "char \<Rightarrow> bool" where
  "is_space c = (c \<in> set [CHR 0x09, CHR 0x0A, CHR 0x0B, CHR 0x0C, CHR 0x0D, CHR '' '', CHR 0xA0])"

definition is_digit :: "char \<Rightarrow> bool" where
  "is_digit c = in_range CHR ''0'' CHR ''9'' c"

text \<open>\<open>\w\<close> is \<open>[A-Za-z0-9_]\<close>.\<close>

definition is_word :: "char \<Rightarrow> bool" where
  "is_word c = (in_range CHR ''a'' CHR ''z'' c \<or> in_range CHR ''A'' CHR ''Z'' c
     \<or> is_digit c \<or> c = CHR ''_'')"

definition is_line_terminator :: "char \<Rightarrow> bool" where
  "is_line_terminator c = (c = CHR 0x0A \<or> c = CHR 0x0D)"

text \<open>\<open>toLowerCase\<close> on one code unit: A-Z and the Latin-1 capitals move up by 32.\<close>

definition to_lower :: "char \<Rightarrow> char" where
  "to_lower c = (if in_range CHR ''A'' CHR ''Z'' c
       \<or> (in_range (CHR 0xC0) (CHR 0xDE) c \<and> c \<noteq> CHR 0xD7)
     then char_of (of_char c + (32::nat)) else c)"

text \<open>
  The \<open>Canonicalize\<close> operation of a case-insensitive pattern: the upper-case form of
  the code unit when that is again a single code unit of the same range.
\<close>

definition canonicalize :: "char \<Rightarrow> char" where
  "canonicalize c = (if in_range CHR ''a'' CHR ''z'' c
       \<or> (in_range (CHR 0xE0) (CHR 0xFE) c \<and> c \<noteq> CHR 0xF7)
     then char_of (of_char c - (32::nat)) else c)"

definition toLowerCase :: "string \<Rightarrow> string" where
  "toLowerCase s = map to_lower s"

subsection \<open>Regular expressions\<close>

text \<open>
  The patterns of the program are JavaScript regular expressions.  They are modelled by
  a datatype of expressions and a backtracking matcher with the semantics of the
  language: the alternatives of a choice are tried in their order, a repetition
  \<open>{lo,hi}\<close> is greedy (\<open>None\<close> is no upper bound), a group records the text it
  matched, a negative lookahead succeeds where its body has no match, \<open>^\<close> and \<open>$\<close>
  are the two ends of the input, and under the \<open>i\<close> flag characters are compared by
  their canonical forms.  No repetition in a pattern of the program contains a group, so
  the reset of the groups at each round of a repetition is not modelled.
\<close>

datatype citem = CChar char | CRange char char | CSpace | CWord | CDigit

fun item_has :: "citem \<Rightarrow> char \<Rightarrow> bool" where
  "item_has (CChar a) c = (c = a)"
| "item_has (CRange lo hi) c = in_range lo hi c"
| "item_has CSpace c = is_space c"
| "item_has CWord c = is_word c"
| "item_has CDigit c = is_digit c"

text \<open>
  Membership of a character in a class.  Under the \<open>i\<close> flag a character is in the class
  when some member has the same canonical form; the candidates are the character itself,
  its lower-case and its canonical form (lemma \<open>class_has_ignore_case\<close>).
\<close>

definition class_has :: "bool \<Rightarrow> citem list \<Rightarrow> char \<Rightarrow> bool" where
  "class_has ci items c =
     (if ci
      then list_ex (\<lambda>i. item_has i c \<or> item_has i (to_lower c) \<or> item_has i (canonicalize c)) items
      else list_ex (\<lambda>i. item_has i c) items)"

definition in_class :: "bool \<Rightarrow> citem list \<Rightarrow> char \<Rightarrow> bool" where
  "in_class neg items c = (class_has False items c \<noteq> neg)"

datatype regex = Eps | Lit char | Dot | Cls bool "citem list"
  | Seq regex regex | Alt regex regex | Rep nat "nat option" regex
  | Grp nat regex | NLook regex | Bol | Eol

text \<open>A pattern is a regular expression with its \<open>i\<close> flag.\<close>

type_synonym pattern = "bool \<times> regex"

definition str :: "string \<Rightarrow> regex" where
  "str s = foldr (\<lambda>c r. Seq (Lit c) r) s Eps"

definition seqs :: "regex list \<Rightarrow> regex" where
  "seqs rs = foldr Seq rs Eps"

fun alts :: "regex list \<Rightarrow> regex" where
  "alts [] = Eps"
| "alts [r] = r"
| "alts (r # r' # rs) = Alt r (alts (r' # rs))"

text \<open>An alternation of literal words.\<close>

definition strs :: "string list \<Rightarrow> regex" where
  "strs words = alts (map str words)"

definition many :: "regex \<Rightarrow> regex" where "many r = Rep 0 None r"

definition many1 :: "regex \<Rightarrow> regex" where "many1 r = Rep 1 None r"

definition optional :: "regex \<Rightarrow> regex" where "optional r = Rep 0 (Some 1) r"

text \<open>
  The backtracking matcher.  The frame list is the continuation: what is still to be
  matched after the current item.  \<open>Close\<close> ends a capture group that began at the
  remembered input; \<open>Chk\<close> is the test of a repetition that its last round consumed
  input.  The boolean tells whether the position is the start of the input.
\<close>

datatype frame = Match regex | Close nat string | Chk nat "nat option" regex

type_synonym caps = "(nat \<times> string) list"

text \<open>The weights of expressions and frames, for the termination of the matcher.\<close>

fun wr :: "regex \<Rightarrow> nat" where
  "wr (Seq a b) = wr a + wr b + 1"
| "wr (Alt a b) = wr a + wr b + 1"
| "wr (Rep lo hi r) = (lo + 1) * (wr r + 1) + 1"
| "wr (Grp i r) = wr r + 2"
| "wr (NLook r) = wr r + 1"
| "wr _ = 1"

fun wf :: "nat \<Rightarrow> frame \<Rightarrow> nat" where
  "wf l (Match r) = wr r"
| "wf l (Close i s) = 1"
| "wf l (Chk n hi r) = (if l < n then wr r + 4 else 0)"

definition dec_bound :: "nat option \<Rightarrow> nat option" where
  "dec_bound hi = (case hi of None \<Rightarrow> None | Some n \<Rightarrow> Some (n - 1))"

function matcher :: "bool \<Rightarrow> frame list \<Rightarrow> bool \<Rightarrow> string \<Rightarrow> caps \<Rightarrow> (caps \<times> string) option" where
  "matcher ci [] b s c = Some (c, s)"
| "matcher ci (Match Eps # k) b s c = matcher ci k b s c"
| "matcher ci (Match (Lit a) # k) b [] c = None"
| "matcher ci (Match (Lit a) # k) b (x # xs) c =
     (if (if ci then canonicalize x = canonicalize a else x = a) then matcher ci k False xs c else None)"
| "matcher ci (Match Dot # k) b [] c = None"
| "matcher ci (Match Dot # k) b (x # xs) c =
     (if is_line_terminator x then None else matcher ci k False xs c)"
| "matcher ci (Match (Cls neg items) # k) b [] c = None"
| "matcher ci (Match (Cls neg items) # k) b (x # xs) c =
     (if class_has ci items x \<noteq> neg then matcher ci k False xs c else None)"
| "matcher ci (Match (Seq r1 r2) # k) b s c = matcher ci (Match r1 # Match r2 # k) b s c"
| "matcher ci (Match (Alt r1 r2) # k) b s c =
     (case matcher ci (Match r1 # k) b s c of Some res \<Rightarrow> Some res | None \<Rightarrow> matcher ci (Match r2 # k) b s c)"
| "matcher ci (Match (Rep lo hi r) # k) b s c =
     (if hi = Some 0 then matcher ci k b s c
      else if 0 < lo then matcher ci (Match r # Match (Rep (lo - 1) (dec_bound hi) r) # k) b s c
      else (case matcher ci (Match r # Chk (length s) (dec_bound hi) r # k) b s c of
              Some res \<Rightarrow> Some res
            | None \<Rightarrow> matcher ci k b s c))"
| "matcher ci (Chk n hi r # k) b s c =
     (if length s < n then matcher ci (Match (Rep 0 hi r) # k) b s c else None)"
| "matcher ci (Match (Grp i r) # k) b s c = matcher ci (Match r # Close i s # k) b s c"
| "matcher ci (Close i s0 # k) b s c = matcher ci k b s ((i, take (length s0 - length s) s0) # c)"
| "matcher ci (Match (NLook r) # k) b s c =
     (case matcher ci [Match r] b s c of Some res \<Rightarrow> None | None \<Rightarrow> matcher ci k b s c)"
| "matcher ci (Match Bol # k) b s c = (if b then matcher ci k b s c else None)"
| "matcher ci (Match Eol # k) b s c = (if s = [] then matcher ci k b s c else None)"
  by pat_completeness auto
termination
  by (relation "measures [\<lambda>(ci, k, b, s, c). length s,
                          \<lambda>(ci, k, b, s, c). sum_list (map (wf (length s)) k)]") auto

text \<open>
  The leftmost match: the start positions are tried from left to right.  The result is
  the input from the start of the match, the captures, and the input after the match.
\<close>

fun search :: "bool \<Rightarrow> regex \<Rightarrow> bool \<Rightarrow> string \<Rightarrow> (string \<times> caps \<times> string) option" where
  "search ci r b [] =
     (case matcher ci [Match r] b [] [] of None \<Rightarrow> None | Some (c, rest) \<Rightarrow> Some ([], c, rest))"
| "search ci r b (x # xs) =
     (case matcher ci [Match r] b (x # xs) [] of
        None \<Rightarrow> search ci r False xs
      | Some (c, rest) \<Rightarrow> Some (x # xs, c, rest))"

text \<open>\<open>s.match(p)\<close> for a pattern without the \<open>g\<close> flag: the matched text and the groups.\<close>

definition js_match :: "pattern \<Rightarrow> string \<Rightarrow> (string \<times> caps) option" where
  "js_match p s =
     (case search (fst p) (snd p) True s of
        None \<Rightarrow> None
      | Some (start, c, rest) \<Rightarrow> Some (take (length start - length rest) start, c))"

definition js_test :: "pattern \<Rightarrow> string \<Rightarrow> bool" where
  "js_test p s = (search (fst p) (snd p) True s \<noteq> None)"

definition grp :: "(string \<times> caps) \<Rightarrow> nat \<Rightarrow> string option" where
  "grp mt i = (if i = 0 then Some (fst mt) else map_of (snd mt) i)"

text \<open>\<open>s.replace(p, repl)\<close> for a pattern without the \<open>g\<close> flag: the first match only.\<close>

definition js_replace :: "pattern \<Rightarrow> string \<Rightarrow> string \<Rightarrow> string" where
  "js_replace p repl s =
     (case search (fst p) (snd p) True s of
        None \<Rightarrow> s
      | Some (start, c, rest) \<Rightarrow> take (length s - length start) s @ repl @ rest)"

text \<open>\<open>s.replace(/[class]/g, repl)\<close>: every character of the class is replaced.\<close>

definition replace_all_class :: "bool \<Rightarrow> citem list \<Rightarrow> string \<Rightarrow> string \<Rightarrow> string" where
  "replace_all_class neg items repl s =
     concat (map (\<lambda>c. if in_class neg items c then repl else [c]) s)"

text \<open>\<open>s.replace(/[class]+/g, repl)\<close>: every maximal run of the class is replaced.\<close>

function replace_all_runs :: "bool \<Rightarrow> citem list \<Rightarrow> string \<Rightarrow> string \<Rightarrow> string" where
  "replace_all_runs neg items repl [] = []"
| "replace_all_runs neg items repl (c # cs) =
     (if in_class neg items c
      then repl @ replace_all_runs neg items repl (dropWhile (in_class neg items) cs)
      else c # replace_all_runs neg items repl cs)"
  by pat_completeness auto
termination
  by (relation "measure (\<lambda>(neg, items, repl, s). length s)")
     (auto simp: less_Suc_eq_le length_dropWhile_le)

text \<open>\<open>s.split(/[class]+/)\<close> on a non-empty string: the pieces between the maximal runs.\<close>

function split_runs :: "bool \<Rightarrow> citem list \<Rightarrow> string \<Rightarrow> string list" where
  "split_runs neg items [] = [[]]"
| "split_runs neg items (c # cs) =
     (if in_class neg items c
      then [] # split_runs neg items (dropWhile (in_class neg items) cs)
      else (case split_runs neg items cs of [] \<Rightarrow> [[c]] | w # ws \<Rightarrow> (c # w) # ws))"
  by pat_completeness auto
termination
  by (relation "measure (\<lambda>(neg, items, s). length s)")
     (auto simp: less_Suc_eq_le length_dropWhile_le)

subsection \<open>String helpers\<close>

definition trim :: "string \<Rightarrow> string" where
  "trim s = rev (dropWhile is_space (rev (dropWhile is_space s)))"

text \<open>\<open>s.split(d)\<close> for a one-character separator.\<close>

fun split_char :: "char \<Rightarrow> string \<Rightarrow> string list" where
  "split_char d [] = [[]]"
| "split_char d (c # cs) =
     (if c = d then [] # split_char d cs
      else (case split_char d cs of [] \<Rightarrow> [[c]] | w # ws \<Rightarrow> (c # w) # ws))"

fun join :: "string \<Rightarrow> string list \<Rightarrow> string" where
  "join d [] = []"
| "join d [w] = w"
| "join d (w # w' # ws) = w @ d @ join d (w' # ws)"

fun starts_with :: "string \<Rightarrow> string \<Rightarrow> bool" where
  "starts_with [] s = True"
| "starts_with (a # as) [] = False"
| "starts_with (a # as) (x # xs) = (a = x \<and> starts_with as xs)"

text \<open>\<open>s.includes(sub)\<close>.\<close>

fun js_includes :: "string \<Rightarrow> string \<Rightarrow> bool" where
  "js_includes [] sub = (sub = [])"
| "js_includes (x # xs) sub = (starts_with sub (x # xs) \<or> js_includes xs sub)"

fun findIndex :: "('a \<Rightarrow> bool) \<Rightarrow> 'a list \<Rightarrow> nat option" where
  "findIndex P [] = None"
| "findIndex P (x # xs) =
     (if P x then Some 0 else (case findIndex P xs of None \<Rightarrow> None | Some i \<Rightarrow> Some (Suc i)))"

fun decimal :: "nat \<Rightarrow> string" where
  "decimal n = (if n < 10 then [''0123456789'' ! n]
                else decimal (n div 10) @ [''0123456789'' ! (n mod 10)])"

definition padStart :: "nat \<Rightarrow> char \<Rightarrow> string \<Rightarrow> string" where
  "padStart n c s = replicate (n - length s) c @ s"

subsection \<open>Text normalisation (parseCertificateText, lines 92 to 97)\<close>

definition allowList :: "citem list" where
  "allowList = [CWord, CSpace, CChar CHR ''-'', CChar CHR ''.'', CChar CHR '','',
                CChar CHR ''/'', CChar CHR '':'', CChar CHR ''('', CChar CHR '')'']"

definition cleanText :: "string \<Rightarrow> string" where
  "cleanText text =
     trim (replace_all_runs False [CSpace] '' '' (replace_all_class True allowList '' '' text))"

definition splitLines :: "string \<Rightarrow> string list" where
  "splitLines cleanedText =
     filter (\<lambda>line. length line > 0) (map trim (split_char CHR 0x0A cleanedText))"

subsection \<open>The pattern tables\<close>

definition ws :: regex where "ws = Cls False [CSpace]"

definition ws_colon :: regex where "ws_colon = Cls False [CSpace, CChar CHR '':'']"

definition colon_ws :: regex where "colon_ws = Cls False [CChar CHR '':'', CSpace]"

definition dot_ws_colon :: regex where
  "dot_ws_colon = Cls False [CChar CHR ''.'', CSpace, CChar CHR '':'']"

definition upper :: regex where "upper = Cls False [CRange CHR ''A'' CHR ''Z'']"

definition lower :: regex where "lower = Cls False [CRange CHR ''a'' CHR ''z'']"

definition digit :: regex where "digit = Cls False [CRange CHR ''0'' CHR ''9'']"

definition alpha_ws :: regex where
  "alpha_ws = Cls False [CRange CHR ''A'' CHR ''Z'', CRange CHR ''a'' CHR ''z'', CSpace]"

definition upper_ws :: regex where
  "upper_ws = Cls False [CRange CHR ''A'' CHR ''Z'', CSpace]"

definition alnum :: regex where
  "alnum = Cls False [CRange CHR ''A'' CHR ''Z'', CRange CHR ''0'' CHR ''9'']"

definition alnum_hyphen :: regex where
  "alnum_hyphen = Cls False [CRange CHR ''A'' CHR ''Z'', CRange CHR ''0'' CHR ''9'', CChar CHR ''-'']"

definition name_chars :: regex where
  "name_chars = Cls False [CRange CHR ''A'' CHR ''Z'', CRange CHR ''a'' CHR ''z'', CSpace,
                           CChar CHR ''&'', CChar CHR ''.'', CChar CHR '','']"

definition date_chars :: regex where
  "date_chars = Cls False [CRange CHR ''0'' CHR ''9'', CChar CHR ''/'', CChar CHR ''-'', CChar CHR ''.'']"

definition date_sep :: regex where
  "date_sep = Cls False [CChar CHR ''/'', CChar CHR ''-'', CChar CHR ''.'']"

definition ws_word :: regex where "ws_word = Cls False [CSpace, CWord]"

definition not_close :: regex where "not_close = Cls True [CChar CHR '')'']"

text \<open>\<open>(?:\([^)]+\))?\<close>\<close>

definition paren_opt :: regex where
  "paren_opt = optional (seqs [Lit CHR ''('', many1 not_close, Lit CHR '')''])"

definition honorifics :: "string list" where
  "honorifics = [''mr.'', ''ms.'', ''mrs.'']"

definition surnames :: "string list" where
  "surnames = [''PATIL'', ''SINGH'', ''KUMAR'', ''SHARMA'', ''GUPTA'', ''VERMA'', ''YADAV'',
     ''AHMED'', ''KHAN'', ''ALI'', ''JOSHI'', ''MISHRA'', ''TIWARI'', ''MALIK'', ''CHAUHAN'',
     ''AGARWAL'', ''JAIN'', ''MEHTA'', ''BANSAL'', ''GOEL'', ''ARORA'', ''KAPOOR'', ''REDDY'',
     ''RAO'', ''NAIDU'', ''VENKAT'', ''KRISHNA'', ''RAM'', ''LAKSHMI'', ''DEVI'', ''KUMARI'']"

definition surnamesShort :: "string list" where
  "surnamesShort = [''PATIL'', ''SINGH'', ''KUMAR'', ''SHARMA'', ''GUPTA'', ''VERMA'', ''YADAV'',
     ''AHMED'', ''KHAN'', ''ALI'']"

text \<open>The month alternation, in the order of the patterns.\<close>

definition months :: "string list" where
  "months = [''june'', ''july'', ''august'', ''september'', ''october'', ''november'',
     ''december'', ''january'', ''february'', ''march'', ''april'', ''may'']"

definition monthNames :: "string list" where
  "monthNames = [''january'', ''february'', ''march'', ''april'', ''may'', ''june'',
     ''july'', ''august'', ''september'', ''october'', ''november'', ''december'']"

definition institutionWords :: "string list" where
  "institutionWords = [''institute'', ''college'', ''university'', ''technology'', ''school'',
     ''academy'', ''vidyalankar'', ''engineering'']"

definition lookaheadWords :: "string list" where
  "lookaheadWords = [''institute'', ''college'', ''university'', ''technology'', ''school'',
     ''academy'']"

text \<open>\<open>(?:mr\.|ms\.|mrs\.)\s*([A-Z][A-Z\s]+(?:PATIL|...|KUMARI))\<close>, flag \<open>i\<close>\<close>

definition receiptNamePattern :: pattern where
  "receiptNamePattern =
     (True, seqs [strs honorifics, many ws,
                  Grp 1 (seqs [upper, many1 upper_ws, strs surnames])])"

text \<open>\<open>month[\s,]*([0-9]{1,2}[,\s]*[0-9]{4})\<close>, flag \<open>i\<close>\<close>

definition monthLoosePattern :: pattern where
  "monthLoosePattern =
     (True, seqs [strs months, many (Cls False [CSpace, CChar CHR '','']),
                  Grp 1 (seqs [Rep 1 (Some 2) digit, many (Cls False [CChar CHR '','', CSpace]),
                               Rep 4 (Some 4) digit])])"

text \<open>\<open>month\s+([0-9]{1,2}),\s+([0-9]{4})\<close>, flag \<open>i\<close>\<close>

definition monthDayYearPattern :: pattern where
  "monthDayYearPattern =
     (True, seqs [strs months, many1 ws, Grp 1 (Rep 1 (Some 2) digit), Lit CHR '','', many1 ws,
                  Grp 2 (Rep 4 (Some 4) digit)])"

text \<open>\<open>([0-9]{1,2})\s+month\s+([0-9]{4})\<close>, flag \<open>i\<close>\<close>

definition dayMonthYearPattern :: pattern where
  "dayMonthYearPattern =
     (True, seqs [Grp 1 (Rep 1 (Some 2) digit), many1 ws, strs months, many1 ws,
                  Grp 2 (Rep 4 (Some 4) digit)])"

text \<open>The table \<open>patterns\<close> of parseCertificateText, lines 118 to 181.\<close>

fun patterns :: "field \<Rightarrow> pattern list" where
  "patterns StudentName =
    [(True, seqs [strs [''name'', ''student'', ''candidate''], many ws_colon,
                  Grp 1 (seqs [many1 alpha_ws, paren_opt])]),
     (True, seqs [strs [''this is to certify that'', ''certify that''], many1 ws,
                  Grp 1 (many1 alpha_ws)]),
     (True, seqs [strs honorifics, many ws, Grp 1 (seqs [many1 alpha_ws, paren_opt])]),
     (True, seqs [Alt (seqs [str ''student'', many ws, str ''name'']) (str ''name''), many ws_colon,
                  Grp 1 (seqs [upper, many1 alpha_ws, strs surnames])]),
     (False, Grp 1 (seqs [upper, many1 lower, many1 ws, upper, many1 lower, many1 ws, upper, many1 lower,
                          many (seqs [many1 ws, upper, many1 lower])])),
     (True, seqs [NLook (seqs [many Dot, strs lookaheadWords]),
                  Grp 1 (seqs [upper, many1 alpha_ws, strs surnamesShort])])]"
| "patterns StudentRoll =
    [(True, seqs [strs [''roll'', ''reg'', ''registration''], many ws_colon, str ''no'',
                  many dot_ws_colon, Grp 1 (many1 alnum_hyphen)]),
     (True, seqs [strs [''roll'', ''reg'', ''registration''], many ws_colon,
                  Grp 1 (many1 alnum_hyphen)]),
     (True, seqs [str ''roll'', many ws_colon, str ''no'', many dot_ws_colon,
                  Grp 1 (many1 alnum_hyphen)]),
     (False, Grp 1 (Rep 8 (Some 12) alnum))]"
| "patterns CertificateNumber =
    [(True, seqs [strs [''certificate'', ''cert'', ''degree'', ''receipt''], many ws_colon, str ''no'',
                  many dot_ws_colon, Grp 1 (many1 alnum_hyphen)]),
     (True, seqs [str ''certificate'', many ws_colon, str ''number'', many ws_colon,
                  Grp 1 (many1 alnum_hyphen)]),
     (True, seqs [strs [''certificate'', ''cert''], many ws_colon, Grp 1 (many1 alnum_hyphen)]),
     (True, seqs [str ''receipt'', many ws_colon, str ''no'', many dot_ws_colon,
                  Grp 1 (many1 alnum_hyphen)]),
     (False, Grp 1 (Rep 6 None digit))]"
| "patterns InstitutionName =
    [(True, seqs [strs [''university'', ''college'', ''institute'', ''school''], many ws_colon,
                  Grp 1 (many1 name_chars)]),
     (True, Grp 1 (seqs [upper, many1 name_chars,
                         strs [''university'', ''college'', ''institute'', ''school'']])),
     (True, seqs [strs [''awarded by'', ''issued by''], many ws_colon, Grp 1 (many1 name_chars)]),
     (True, seqs [str ''vidyalankar'', many ws_word, str ''institute'']),
     (True, Grp 1 (seqs [upper, many1 alpha_ws,
                         strs [''TECHNOLOGY'', ''ENGINEERING'', ''COLLEGE'', ''UNIVERSITY'']]))]"
| "patterns CourseName =
    [(True, seqs [strs [''course'', ''degree'', ''program''], many ws_colon, Grp 1 (many1 name_chars)]),
     (True, seqs [strs [''bachelor'', ''master'', ''diploma''], many ws_colon, str ''of'',
                  many ws_colon, Grp 1 (many1 name_chars)]),
     (True, seqs [strs [''in'', ''for''], many ws_colon, Grp 1 (many1 name_chars)]),
     (True, seqs [strs [''computer'', ''mechanical'', ''electrical'', ''civil'', ''electronics''],
                  many ws, strs [''engineering'', ''science'']]),
     (True, seqs [strs [''undergraduate'', ''graduate''], many ws_colon, Grp 1 (many1 name_chars)])]"
| "patterns Marks =
    [(True, seqs [strs [''marks'', ''grade'', ''cgpa'', ''percentage''], many ws_colon,
                  Grp 1 (many1 (Cls False [CRange CHR ''0'' CHR ''9'', CChar CHR ''.'']))]),
     (False, seqs [Grp 1 (many1 (Cls False [CRange CHR ''0'' CHR ''9'', CChar CHR ''.''])), many ws,
                   strs [''out of'', ''/'', ''%'']]),
     (True, seqs [strs [''secured'', ''obtained''], many ws_colon,
                  Grp 1 (many1 (Cls False [CRange CHR ''0'' CHR ''9'', CChar CHR ''.'']))]),
     (True, seqs [str ''total'', many ws_colon,
                  Grp 1 (many1 (Cls False [CRange CHR ''0'' CHR ''9'', CChar CHR '','']))]),
     (False, Grp 1 (seqs [many1 digit, Cls False [CChar CHR ''.'', CChar CHR '',''], many1 digit]))]"
| "patterns DateIssued =
    [(True, seqs [strs [''date'', ''issued'', ''awarded''], many ws_colon, Grp 1 (many1 date_chars)]),
     (False, Grp 1 (seqs [Rep 1 (Some 2) digit, date_sep, Rep 1 (Some 2) digit, date_sep,
                          Rep 2 (Some 4) digit])),
     (True, seqs [str ''on'', many ws_colon, Grp 1 (many1 date_chars)]),
     monthLoosePattern,
     (False, Grp 1 (Rep 4 (Some 4) digit)),
     (True, seqs [strs months, many1 ws, Grp 1 (Rep 1 (Some 2) digit), optional (Lit CHR '',''), many1 ws,
                  Grp 2 (Rep 4 (Some 4) digit)]),
     dayMonthYearPattern,
     monthDayYearPattern]"
| "patterns Uin =
    [(True, seqs [strs [''uin'', ''unique identification number''], many ws_colon,
                  Grp 1 (many1 alnum_hyphen)]),
     (True, seqs [strs [''unique id'', ''id''], many ws_colon, Grp 1 (many1 alnum_hyphen)]),
     (False, Grp 1 (Rep 8 None alnum))]"

text \<open>The order of the keys of \<open>patterns\<close>.\<close>

definition patternFields :: "field list" where
  "patternFields = [StudentName, StudentRoll, CertificateNumber, InstitutionName,
                    CourseName, Marks, DateIssued, Uin]"

text \<open>The table \<open>formPatterns\<close> of extractFromFormFields, in the order of its keys.\<close>

definition formPatterns :: "(field \<times> pattern list) list" where
  "formPatterns =
    [(StudentRoll,
       [(True, seqs [str ''student'', many ws, str ''roll'', many ws, str ''no'', many colon_ws,
                     Grp 1 (many1 alnum_hyphen)]),
        (True, seqs [str ''roll'', many ws, str ''no'', many colon_ws, Grp 1 (many1 alnum_hyphen)]),
        (True, seqs [str ''roll'', many ws, str ''number'', many colon_ws,
                     Grp 1 (many1 alnum_hyphen)])]),
     (StudentName,
       [(True, seqs [str ''student'', many ws, str ''name'', many colon_ws,
                     Grp 1 (seqs [many1 alpha_ws, paren_opt])]),
        (True, seqs [str ''name'', many colon_ws, Grp 1 (seqs [many1 alpha_ws, paren_opt])]),
        receiptNamePattern]),
     (InstitutionName,
       [(True, seqs [str ''institution'', many colon_ws, Grp 1 (many1 name_chars)]),
        (True, seqs [str ''college'', many colon_ws, Grp 1 (many1 name_chars)]),
        (True, seqs [str ''university'', many colon_ws, Grp 1 (many1 name_chars)]),
        (True, seqs [str ''vidyalankar'', many ws_word, str ''institute'', many ws_word,
                     str ''technology''])]),
     (DateIssued,
       [(True, seqs [str ''issue'', many ws, str ''date'', many colon_ws, Grp 1 (many1 date_chars)]),
        (True, seqs [str ''date'', many colon_ws, Grp 1 (many1 date_chars)]),
        monthLoosePattern,
        monthDayYearPattern,
        dayMonthYearPattern]),
     (CertificateNumber,
       [(True, seqs [str ''receipt'', many ws, str ''no'', many colon_ws, Grp 1 (many1 digit)]),
        (True, seqs [str ''certificate'', many ws, str ''no'', many colon_ws,
                     Grp 1 (many1 alnum_hyphen)]),
        (True, seqs [str ''certificate'', many ws, str ''number'', many colon_ws,
                     Grp 1 (many1 alnum_hyphen)])])]"

subsection \<open>Field cleanup (parseCertificateText, lines 193 to 225)\<close>

text \<open>
  \<open>value.split(' ').filter(word => !institutionWords.some(inst =>
  word.toLowerCase().includes(inst.toLowerCase()))).join(' ').trim()\<close>
\<close>

definition dropInstitutionWords :: "string \<Rightarrow> string" where
  "dropInstitutionWords v =
     trim (join '' ''
       (filter (\<lambda>word. \<not> list_ex (\<lambda>inst. js_includes (toLowerCase word) (toLowerCase inst))
                                   institutionWords)
               (split_char CHR '' '' v)))"

text \<open>\<open>/\([^)]*\)$/\<close> and \<open>/^(mr\.|ms\.|mrs\.)\s*/i\<close>\<close>

definition trailingParen :: pattern where
  "trailingParen = (False, seqs [Lit CHR ''('', many not_close, Lit CHR '')'', Eol])"

definition leadingTitle :: pattern where
  "leadingTitle = (True, seqs [Bol, Grp 1 (strs honorifics), many ws])"

definition monthNumber :: "nat \<Rightarrow> string" where
  "monthNumber monthIndex = padStart 2 CHR ''0'' (decimal (monthIndex + 1))"

definition cleanDate :: "string \<Rightarrow> string" where
  "cleanDate v =
     (if CHR '','' \<in> set v then
        (let parts = split_runs False [CSpace, CChar CHR '',''] (toLowerCase v) in
         if length parts \<ge> 3 then
           (case findIndex (\<lambda>month. js_includes (parts ! 0) month) monthNames of
              None \<Rightarrow> v
            | Some monthIndex \<Rightarrow>
                (let day = replace_all_class True [CDigit] [] (parts ! 1);
                     year = replace_all_class True [CDigit] [] (parts ! 2)
                 in day @ ''/'' @ monthNumber monthIndex @ ''/'' @ year))
         else v)
      else replace_all_class True [CDigit, CChar CHR ''/'', CChar CHR ''-'', CChar CHR ''.''] [] v)"

fun cleanup :: "field \<Rightarrow> string \<Rightarrow> string" where
  "cleanup StudentName v =
     dropInstitutionWords (js_replace leadingTitle [] (trim (js_replace trailingParen [] v)))"
| "cleanup DateIssued v = cleanDate v"
| "cleanup Marks v = replace_all_class True [CDigit, CChar CHR ''.''] [] v"
| "cleanup StudentRoll v =
     replace_all_class True [CRange CHR ''A'' CHR ''Z'', CRange CHR ''0'' CHR ''9'', CChar CHR ''-''] [] v"
| "cleanup CertificateNumber v =
     replace_all_class True [CRange CHR ''A'' CHR ''Z'', CRange CHR ''0'' CHR ''9'', CChar CHR ''-''] [] v"
| "cleanup InstitutionName v = v"
| "cleanup CourseName v = v"
| "cleanup Uin v = v"

subsection \<open>The primary extractor (parseCertificateText, lines 183 to 235)\<close>

text \<open>
  \<open>match && match[1] && match[1].trim().length > 2\<close>: the trimmed first group when the
  test holds.
\<close>

definition accepted :: "pattern \<Rightarrow> string \<Rightarrow> string option" where
  "accepted p s =
     (case js_match p s of
        None \<Rightarrow> None
      | Some mt \<Rightarrow>
          (case grp mt 1 of
             None \<Rightarrow> None
           | Some g \<Rightarrow> if g \<noteq> [] \<and> length (trim g) > 2 then Some (trim g) else None))"

text \<open>The loop over the patterns of one field on one line; it stops at the first store.\<close>

fun patternLoop :: "field \<Rightarrow> pattern list \<Rightarrow> string \<Rightarrow> ParsedData \<Rightarrow> ParsedData" where
  "patternLoop f [] line e = e"
| "patternLoop f (p # ps) line e =
     (case accepted p line of
        None \<Rightarrow> patternLoop f ps line e
      | Some v \<Rightarrow>
          (let v' = cleanup f v
           in if length v' > 0 then setField f v' e else patternLoop f ps line e))"

text \<open>The loop over the lines; it stops once the field is set.\<close>

fun lineLoop :: "field \<Rightarrow> pattern list \<Rightarrow> string list \<Rightarrow> ParsedData \<Rightarrow> ParsedData" where
  "lineLoop f ps [] e = e"
| "lineLoop f ps (line # rest) e =
     (let e' = patternLoop f ps line e
      in if truthy (getField f e') then e' else lineLoop f ps rest e')"

definition primaryExtract :: "string list \<Rightarrow> ParsedData" where
  "primaryExtract lines = fold (\<lambda>f e. lineLoop f (patterns f) lines e) patternFields emptyParsed"

subsection \<open>The fallback passes (parseCertificateText, lines 237 to 288)\<close>

definition rollFallback :: "string \<Rightarrow> ParsedData \<Rightarrow> ParsedData" where
  "rollFallback cleanedText e =
     (if \<not> truthy (studentRoll e) \<and> \<not> truthy (certificateNumber e) then
        (case js_match (False, Grp 1 (Rep 8 (Some 12) alnum)) cleanedText of
           None \<Rightarrow> e
         | Some rollMatch \<Rightarrow> e\<lparr>studentRoll := grp rollMatch 1\<rparr>)
      else e)"

text \<open>
  In the passes below a group of the match is read without a test.  The group is part of
  every match of its pattern (lemma \<open>unchecked_groups\<close>), so the branch for a missing
  group is never taken.
\<close>

definition institutionFallback :: "string \<Rightarrow> ParsedData \<Rightarrow> ParsedData" where
  "institutionFallback cleanedText e =
     (if \<not> truthy (institutionName e) then
        (case js_match (True, Grp 1 (seqs [many1 alpha_ws,
                                 strs [''institute'', ''college'', ''university'', ''school'']]))
                cleanedText of
           None \<Rightarrow> e
         | Some instMatch \<Rightarrow>
             (case grp instMatch 1 of
                None \<Rightarrow> e
              | Some g \<Rightarrow> e\<lparr>institutionName := Some (trim g)\<rparr>))
      else e)"

text \<open>extractFromFormFields, lines 293 to 358\<close>

fun formPatternLoop :: "field \<Rightarrow> pattern list \<Rightarrow> string \<Rightarrow> ParsedData \<Rightarrow> ParsedData" where
  "formPatternLoop f [] text e = e"
| "formPatternLoop f (p # ps) text e =
     (case accepted p text of
        None \<Rightarrow> formPatternLoop f ps text e
      | Some v \<Rightarrow>
          (if f = StudentName then
             (let v' = dropInstitutionWords v;
                  hasValidSurname = js_test (True, strs surnames) v'
              in if hasValidSurname \<and> length v' > 5 then setField f v' e
                 else formPatternLoop f ps text e)
           else setField f v e))"

definition extractFromFormFields :: "string \<Rightarrow> ParsedData \<Rightarrow> ParsedData" where
  "extractFromFormFields text e =
     fold (\<lambda>(f, ps) e. if \<not> truthy (getField f e) then formPatternLoop f ps text e else e)
          formPatterns e"

text \<open>\<open>/\s*\([^)]*\)$/\<close>\<close>

definition receiptParen :: pattern where
  "receiptParen = (False, seqs [many ws, Lit CHR ''('', many not_close, Lit CHR '')'', Eol])"

definition receiptNameFallback :: "string \<Rightarrow> ParsedData \<Rightarrow> ParsedData" where
  "receiptNameFallback cleanedText e =
     (if \<not> truthy (studentName e) then
        (case js_match receiptNamePattern cleanedText of
           None \<Rightarrow> e
         | Some receiptNameMatch \<Rightarrow>
             (case grp receiptNameMatch 1 of
                None \<Rightarrow> e
              | Some g \<Rightarrow>
                  (let name = trim (js_replace receiptParen [] (trim g))
                   in e\<lparr>studentName := Some (dropInstitutionWords name)\<rparr>)))
      else e)"

definition receiptDateFallback :: "string \<Rightarrow> ParsedData \<Rightarrow> ParsedData" where
  "receiptDateFallback cleanedText e =
     (if \<not> truthy (dateIssued e) then
        (case js_match monthDayYearPattern cleanedText of
           None \<Rightarrow> e
         | Some receiptDateMatch \<Rightarrow>
             (case findIndex (\<lambda>month. js_includes (toLowerCase (fst receiptDateMatch)) month)
                     monthNames of
                None \<Rightarrow> e
              | Some monthIndex \<Rightarrow>
                  (case (grp receiptDateMatch 1, grp receiptDateMatch 2) of
                     (Some day, Some year) \<Rightarrow>
                        e\<lparr>dateIssued := Some (day @ ''/'' @ monthNumber monthIndex @ ''/'' @ year)\<rparr>
                   | _ \<Rightarrow> e)))
      else e)"

subsection \<open>parseCertificateText\<close>

text \<open>
  The block of lines 103 to 115 and the other calls of \<open>console.log\<close> only write to
  the console and are left out.
\<close>

definition parseCertificateText :: "string \<Rightarrow> ParsedData" where
  "parseCertificateText text =
     (let cleanedText = cleanText text;
          lines = splitLines cleanedText;
          e0 = primaryExtract lines;
          e1 = rollFallback cleanedText e0;
          e2 = institutionFallback cleanedText e1;
          e3 = extractFromFormFields cleanedText e2;
          e4 = receiptNameFallback cleanedText e3;
          e5 = receiptDateFallback cleanedText e4
      in e5)"

subsection \<open>validateExtractedData\<close>

record ValidationResult =
  isValid :: bool
  errors :: "string list"

definition validateExtractedData :: "ParsedData \<Rightarrow> ValidationResult" where
  "validateExtractedData data =
    (let errors0 = [];
         errors1 = (if \<not> truthy (studentName data)
                    then errors0 @ [''Student name not found''] else errors0);
         errors2 = (if \<not> truthy (studentRoll data) \<and> \<not> truthy (certificateNumber data)
                    then errors1 @ [''Roll number or certificate number not found'']
                    else errors1);
         errors3 = (if \<not> truthy (institutionName data)
                    then errors2 @ [''Institution name not found''] else errors2)
     in \<lparr>isValid = (length errors3 = 0), errors = errors3\<rparr>)"

subsection \<open>extractText\<close>

text \<open>
  The file reader, the recognition engine, the clock and \<open>Math.round\<close> are outside the
  program; they are parameters of the model.  A thrown \<open>Error\<close> is the left summand of
  the result.  The second component of the result counts the calls of the recognition
  engine.  The progress logger only writes to the console and is left out.
\<close>

datatype jsError = Error string

text \<open>Of a \<open>File\<close> only its \<open>type\<close> is read by the program itself.\<close>

record File =
  fileType :: string

record 'n ocrEnv =
  readAsDataURL :: "File \<Rightarrow> jsError + string"
  recognize :: "string \<Rightarrow> jsError + (string \<times> 'n)"
  mathRound :: "'n \<Rightarrow> int"
  startTime :: int
  endTime :: int

record ExtractedData =
  rawText :: string
  confidence :: int
  parsedData :: ParsedData
  processingTime :: int

definition validTypes :: "string list" where
  "validTypes = [''image/jpeg'', ''image/jpg'', ''image/png'', ''image/gif'', ''image/bmp'',
                 ''image/webp'', ''image/tiff'']"

definition isValidFileType :: "File \<Rightarrow> bool" where
  "isValidFileType file = (toLowerCase (fileType file) \<in> set validTypes)"

text \<open>The body of the \<open>try\<close> block, lines 26 to 61.\<close>

definition tryBlock :: "'n ocrEnv \<Rightarrow> File \<Rightarrow> (jsError + ExtractedData) \<times> nat" where
  "tryBlock env file =
     (if \<not> isValidFileType file
      then (Inl (Error ''Unsupported file type. Please use image files (JPG, PNG, etc.)''), 0)
      else (case readAsDataURL env file of
              Inl err \<Rightarrow> (Inl err, 0)
            | Inr imageDataUrl \<Rightarrow>
                (case recognize env imageDataUrl of
                   Inl err \<Rightarrow> (Inl err, 1)
                 | Inr (text, conf) \<Rightarrow>
                     (Inr \<lparr>rawText = text, confidence = mathRound env conf,
                           parsedData = parseCertificateText text,
                           processingTime = endTime env - startTime env\<rparr>, 1))))"

text \<open>The \<open>catch\<close> handler replaces every error by one with a fixed message.\<close>

definition extractText :: "'n ocrEnv \<Rightarrow> File \<Rightarrow> (jsError + ExtractedData) \<times> nat" where
  "extractText env file =
     (case tryBlock env file of
        (Inl error, calls) \<Rightarrow>
          (Inl (Error ''Failed to extract text from document. Please ensure the file is a valid image.''),
           calls)
      | (Inr result, calls) \<Rightarrow> (Inr result, calls))"

subsection \<open>Auxiliary definitions for the proofs\<close>

text \<open>
  The value that the pattern loop stores for a field on one line, the value that the
  line loop stores, and the value that the form-field loop stores.
\<close>

fun firstValue :: "field \<Rightarrow> pattern list \<Rightarrow> string \<Rightarrow> string option" where
  "firstValue f [] line = None"
| "firstValue f (p # ps) line =
     (case accepted p line of
        None \<Rightarrow> firstValue f ps line
      | Some v \<Rightarrow>
          (let v' = cleanup f v
           in if length v' > 0 then Some v' else firstValue f ps line))"

fun lineValue :: "field \<Rightarrow> pattern list \<Rightarrow> string list \<Rightarrow> string option" where
  "lineValue f ps [] = None"
| "lineValue f ps (line # rest) =
     (case firstValue f ps line of Some v \<Rightarrow> Some v | None \<Rightarrow> lineValue f ps rest)"

fun formValue :: "field \<Rightarrow> pattern list \<Rightarrow> string \<Rightarrow> string option" where
  "formValue f [] text = None"
| "formValue f (p # ps) text =
     (case accepted p text of
        None \<Rightarrow> formValue f ps text
      | Some v \<Rightarrow>
          (if f = StudentName then
             (let v' = dropInstitutionWords v;
                  hasValidSurname = js_test (True, strs surnames) v'
              in if hasValidSurname \<and> length v' > 5 then Some v'
                 else formValue f ps text)
           else Some v))"

text \<open>One round of the loop of extractFromFormFields.\<close>

definition formStep :: "string \<Rightarrow> field \<times> pattern list \<Rightarrow> ParsedData \<Rightarrow> ParsedData" where
  "formStep text = (\<lambda>(f, ps) e. if \<not> truthy (getField f e) then formPatternLoop f ps text e else e)"

text \<open>The fallback passes in the order in which parseCertificateText runs them.\<close>

definition fallbackPasses :: "string \<Rightarrow> (ParsedData \<Rightarrow> ParsedData) list" where
  "fallbackPasses cleanedText =
     [rollFallback cleanedText, institutionFallback cleanedText,
      extractFromFormFields cleanedText, receiptNameFallback cleanedText,
      receiptDateFallback cleanedText]"

text \<open>The entry of \<open>formPatterns\<close> for the student name.\<close>

definition formNamePatterns :: "pattern list" where
  "formNamePatterns =
     [(True, seqs [str ''student'', many ws, str ''name'', many colon_ws,
                   Grp 1 (seqs [many1 alpha_ws, paren_opt])]),
      (True, seqs [str ''name'', many colon_ws, Grp 1 (seqs [many1 alpha_ws, paren_opt])]),
      receiptNamePattern]"

text \<open>
  The cleaned text has no white space other than single blanks between other characters.
\<close>

fun single_spaced :: "string \<Rightarrow> bool" where
  "single_spaced [] = True"
| "single_spaced [c] = (is_space c \<longrightarrow> c = CHR '' '')"
| "single_spaced (c # d # cs) =
     ((is_space c \<longrightarrow> c = CHR '' '' \<and> \<not> is_space d) \<and> single_spaced (d # cs))"

text \<open>A group that every match of the expression sets.\<close>

fun sets_group :: "nat \<Rightarrow> regex \<Rightarrow> bool" where
  "sets_group i (Grp j r) = (i = j \<or> sets_group i r)"
| "sets_group i (Seq a b) = (sets_group i a \<or> sets_group i b)"
| "sets_group i (Alt a b) = (sets_group i a \<and> sets_group i b)"
| "sets_group i (Rep lo hi r) = (0 < lo \<and> hi \<noteq> Some 0 \<and> sets_group i r)"
| "sets_group i _ = False"

fun frame_sets :: "nat \<Rightarrow> frame \<Rightarrow> bool" where
  "frame_sets i (Match r) = sets_group i r"
| "frame_sets i (Close j s) = (i = j)"
| "frame_sets i (Chk n hi r) = False"

text \<open>
  The specification's order of the fallback passes: the two receipt passes before the
  form-field pass.  It is compared with the program's order below.
\<close>

definition specOrderParse :: "string \<Rightarrow> ParsedData" where
  "specOrderParse text =
     (let cleanedText = cleanText text;
          lines = splitLines cleanedText;
          e0 = primaryExtract lines;
          e1 = rollFallback cleanedText e0;
          e2 = institutionFallback cleanedText e1;
          e3 = receiptNameFallback cleanedText e2;
          e4 = receiptDateFallback cleanedText e3;
          e5 = extractFromFormFields cleanedText e4
      in e5)"

text \<open>
  The specification's allow-list of the normaliser: letters, digits, white space and
  \<open>-.,/:()\<close>.
\<close>

definition specAllowList :: "citem list" where
  "specAllowList = [CRange CHR ''A'' CHR ''Z'', CRange CHR ''a'' CHR ''z'', CRange CHR ''0'' CHR ''9'',
                    CSpace, CChar CHR ''-'', CChar CHR ''.'', CChar CHR '','',
                    CChar CHR ''/'', CChar CHR '':'', CChar CHR ''('', CChar CHR '')'']"

text \<open>
  The words of a text for a test \<open>keep\<close>: its maximal runs of characters that pass the
  test, from left to right.  The characters that the normaliser keeps as they are: the
  characters of the allow-list that are not white space.
\<close>

function tokens :: "(char \<Rightarrow> bool) \<Rightarrow> string \<Rightarrow> string list" where
  "tokens keep [] = []"
| "tokens keep (c # cs) =
     (if keep c then (c # takeWhile keep cs) # tokens keep (dropWhile keep cs)
      else tokens keep cs)"
  by pat_completeness auto
termination
  by (relation "measure (\<lambda>(keep, s). length s)")
     (auto simp: less_Suc_eq_le length_dropWhile_le)

definition kept :: "char \<Rightarrow> bool" where
  "kept c = (in_class False allowList c \<and> \<not> is_space c)"

text \<open>Inputs of the scenarios.\<close>

definition text1 :: string where
  "text1 = ''Mr. NIKHIL SUREDRA PATIL (OPEN)\<newline>Receipt No: 123456\<newline>June 27, 2025''"

definition clean1 :: string where
  "clean1 = ''Mr. NIKHIL SUREDRA PATIL (OPEN) Receipt No: 123456 June 27, 2025''"

definition text4 :: string where
  "text4 = ''name:SCHOOL (KHAN) Mr.XXALISCHOOL''"

definition text5 :: string where
  "text5 = ''XYZ Institute of Technology\<newline>Mr. RAJESH KUMAR''"

section \<open>Properties of the normaliser\<close>

lemma in_class_space [simp]: "in_class False [CSpace] = is_space"
  by (rule ext) (simp add: in_class_def class_has_def)

lemma is_space_blank [simp]: "is_space CHR '' ''"
  by (simp add: is_space_def)

lemma allow_space: "is_space c \<Longrightarrow> \<not> in_class True allowList c"
  by (simp add: in_class_def class_has_def allowList_def)

lemma runs_head: "cs = [] \<or> \<not> is_space (hd cs) \<Longrightarrow>
   replace_all_runs False [CSpace] '' '' cs = [] \<or> \<not> is_space (hd (replace_all_runs False [CSpace] '' '' cs))"
  by (cases cs) auto

lemma dropWhile_head: "dropWhile P cs = [] \<or> \<not> P (hd (dropWhile P cs))"
  by (metis hd_dropWhile)

lemma single_spaced_Cons: "single_spaced (c # cs) =
   ((is_space c \<longrightarrow> c = CHR '' '' \<and> (cs = [] \<or> \<not> is_space (hd cs))) \<and> single_spaced cs)"
  by (cases cs) auto

lemma single_spaced_runs: "single_spaced (replace_all_runs False [CSpace] '' '' s)"
proof (induction "False" "[CSpace]" "'' ''" s rule: replace_all_runs.induct)
  case 1
  then show ?case by simp
next
  case (2 c cs)
  show ?case
  proof (cases "is_space c")
    case True
    with 2 show ?thesis
      using runs_head[OF dropWhile_head[of is_space cs]]
      by (simp add: single_spaced_Cons)
  next
    case False
    with 2 show ?thesis by (simp add: single_spaced_Cons)
  qed
qed

lemma single_spaced_fix: "single_spaced s \<Longrightarrow> replace_all_runs False [CSpace] '' '' s = s"
proof (induction s rule: single_spaced.induct)
  case 1
  then show ?case by simp
next
  case (2 c)
  then show ?case by simp
next
  case (3 c d cs)
  then show ?case by (cases "is_space c") auto
qed

lemma single_spaced_append: "single_spaced (xs @ ys) \<Longrightarrow> single_spaced xs \<and> single_spaced ys"
proof (induction xs rule: single_spaced.induct)
  case 1
  then show ?case by simp
next
  case (2 c)
  then show ?case by (cases ys) auto
next
  case (3 c d cs)
  then show ?case by auto
qed

lemma single_spaced_dropWhile: "single_spaced s \<Longrightarrow> single_spaced (dropWhile P s)"
  by (metis single_spaced_append takeWhile_dropWhile_id)

lemma trim_end_prefix: "\<exists>zs. s = rev (dropWhile P (rev s)) @ zs"
  by (metis rev_append rev_rev_ident takeWhile_dropWhile_id)

lemma single_spaced_trim: "single_spaced s \<Longrightarrow> single_spaced (trim s)"
  unfolding trim_def
  by (metis single_spaced_append single_spaced_dropWhile trim_end_prefix)

lemma single_spaced_clean: "single_spaced (cleanText t)"
  by (simp add: cleanText_def single_spaced_trim single_spaced_runs)

lemma single_spaced_chars: "single_spaced s \<Longrightarrow> c \<in> set s \<Longrightarrow> is_space c \<Longrightarrow> c = CHR '' ''"
  by (induction s rule: single_spaced.induct) auto

lemma trim_no_lead: "trim s = [] \<or> \<not> is_space (hd (trim s))"
proof -
  let ?d = "dropWhile is_space s"
  have a: "?d = [] \<or> \<not> is_space (hd ?d)" by (rule dropWhile_head)
  show ?thesis
  proof (cases "trim s = []")
    case True then show ?thesis by simp
  next
    case False
    then have ne: "dropWhile is_space (rev ?d) \<noteq> []" by (simp add: trim_def)
    obtain zs where z: "?d = trim s @ zs" unfolding trim_def using trim_end_prefix by blast
    with False have "hd ?d = hd (trim s)" by (metis hd_append2)
    moreover have "?d \<noteq> []" using z False by auto
    ultimately show ?thesis using a by metis
  qed
qed

lemma trim_no_trail: "trim s = [] \<or> \<not> is_space (last (trim s))"
proof -
  let ?r = "dropWhile is_space (rev (dropWhile is_space s))"
  have "?r = [] \<or> \<not> is_space (hd ?r)" by (rule dropWhile_head)
  then show ?thesis unfolding trim_def by (metis hd_rev rev_is_Nil_conv rev_rev_ident)
qed

lemma trim_id: "s = [] \<or> (\<not> is_space (hd s) \<and> \<not> is_space (last s)) \<Longrightarrow> trim s = s"
proof (cases s)
  case Nil
  then show ?thesis by (simp add: trim_def)
next
  case (Cons a list)
  assume "s = [] \<or> (\<not> is_space (hd s) \<and> \<not> is_space (last s))"
  with Cons have h: "\<not> is_space (hd s)" and l: "\<not> is_space (last s)" by auto
  from h Cons have 1: "dropWhile is_space s = s" by simp
  have "s \<noteq> []" using Cons by simp
  with l have "\<not> is_space (hd (rev s))" by (simp add: hd_rev)
  then have 2: "dropWhile is_space (rev s) = rev s" by (cases "rev s") auto
  show ?thesis by (simp add: trim_def 1 2)
qed

lemma trim_idem: "trim (trim s) = trim s"
  using trim_id trim_no_lead trim_no_trail by blast

lemma set_trim: "set (trim s) \<subseteq> set s"
  unfolding trim_def by (metis set_dropWhileD set_rev subsetI)

lemma set_runs: "set (replace_all_runs False [CSpace] '' '' s) \<subseteq> insert CHR '' '' (set s)"
proof (induction "False" "[CSpace]" "'' ''" s rule: replace_all_runs.induct)
  case 1
  then show ?case by simp
next
  case (2 c cs)
  have "set (dropWhile is_space cs) \<subseteq> set cs" by (meson set_dropWhileD subsetI)
  with 2 show ?case by (cases "is_space c") auto
qed

lemma set_replace_class:
  "c \<in> set (replace_all_class True allowList '' '' t) \<Longrightarrow> \<not> in_class True allowList c"
  by (auto simp: replace_all_class_def allow_space split: if_splits)

lemma cleanText_allowed: "c \<in> set (cleanText t) \<Longrightarrow> \<not> in_class True allowList c"
proof -
  assume "c \<in> set (cleanText t)"
  then have "c \<in> set (replace_all_runs False [CSpace] '' '' (replace_all_class True allowList '' '' t))"
    unfolding cleanText_def using set_trim by blast
  then have "c = CHR '' '' \<or> c \<in> set (replace_all_class True allowList '' '' t)"
    using set_runs by blast
  then show ?thesis using set_replace_class allow_space by auto
qed

lemma replace_class_id:
  "(\<And>c. c \<in> set s \<Longrightarrow> \<not> in_class neg items c) \<Longrightarrow> replace_all_class neg items repl s = s"
  by (induction s) (auto simp: replace_all_class_def)

lemma cleanText_trimmed: "trim (cleanText t) = cleanText t"
  by (simp add: cleanText_def trim_idem)

lemma cleanText_idem: "cleanText (cleanText t) = cleanText t"
proof -
  have 1: "replace_all_class True allowList '' '' (cleanText t) = cleanText t"
    by (rule replace_class_id) (rule cleanText_allowed)
  have 2: "replace_all_runs False [CSpace] '' '' (cleanText t) = cleanText t"
    by (rule single_spaced_fix) (rule single_spaced_clean)
  show ?thesis
    by (subst (1) cleanText_def) (simp only: 1 2 cleanText_trimmed)
qed

lemma split_char_none: "d \<notin> set s \<Longrightarrow> split_char d s = [s]"
  by (induction s) auto

lemma newline_space: "is_space (CHR 0x0A)"
  by (simp add: is_space_def)

lemma cleanText_no_newline: "CHR 0x0A \<notin> set (cleanText t)"
proof
  assume "CHR 0x0A \<in> set (cleanText t)"
  then have "CHR 0x0A = CHR '' ''"
    using single_spaced_chars[OF single_spaced_clean] newline_space by blast
  then show False by simp
qed

lemma splitLines_clean:
  "splitLines (cleanText t) = (if cleanText t = [] then [] else [cleanText t])"
  by (simp add: splitLines_def split_char_none[OF cleanText_no_newline] cleanText_trimmed)

lemma filter_dropWhile_neg: "filter (\<lambda>c. \<not> P c) (dropWhile P s) = filter (\<lambda>c. \<not> P c) s"
  by (induction s) auto

lemma filter_trim: "filter (\<lambda>c. \<not> is_space c) (trim s) = filter (\<lambda>c. \<not> is_space c) s"
proof -
  have "filter (\<lambda>c. \<not> is_space c) (trim s)
        = rev (filter (\<lambda>c. \<not> is_space c) (dropWhile is_space (rev (dropWhile is_space s))))"
    by (simp add: trim_def rev_filter)
  also have "\<dots> = rev (filter (\<lambda>c. \<not> is_space c) (rev (dropWhile is_space s)))"
    by (simp only: filter_dropWhile_neg)
  also have "\<dots> = filter (\<lambda>c. \<not> is_space c) (dropWhile is_space s)"
    by (simp add: rev_filter)
  finally show ?thesis by (simp only: filter_dropWhile_neg)
qed

lemma filter_runs:
  "filter (\<lambda>c. \<not> is_space c) (replace_all_runs False [CSpace] '' '' s) = filter (\<lambda>c. \<not> is_space c) s"
proof (induction "False" "[CSpace]" "'' ''" s rule: replace_all_runs.induct)
  case 1
  then show ?case by simp
next
  case (2 c cs)
  then show ?case by (cases "is_space c") (auto simp: filter_dropWhile_neg)
qed

lemma filter_replace_class:
  "filter (\<lambda>c. \<not> is_space c) (replace_all_class True allowList '' '' t)
     = filter (\<lambda>c. \<not> in_class True allowList c \<and> \<not> is_space c) t"
  by (induction t) (auto simp: replace_all_class_def)

lemma cleanText_content:
  "filter (\<lambda>c. \<not> is_space c) (cleanText t)
     = filter (\<lambda>c. \<not> in_class True allowList c \<and> \<not> is_space c) t"
  by (simp add: cleanText_def filter_trim filter_runs filter_replace_class)

lemma single_spaced_adjacent:
  "single_spaced s \<Longrightarrow> Suc i < length s \<Longrightarrow> is_space (s ! i) \<Longrightarrow> \<not> is_space (s ! Suc i)"
proof (induction s arbitrary: i rule: single_spaced.induct)
  case 1
  then show ?case by simp
next
  case (2 c)
  then show ?case by simp
next
  case (3 c d cs)
  show ?case
  proof (cases i)
    case 0
    with 3 show ?thesis by simp
  next
    case (Suc j)
    with 3 show ?thesis by simp
  qed
qed

lemma in_class_flip: "in_class False items c = (\<not> in_class True items c)"
  by (auto simp: in_class_def)

lemma lines_trimmed: "line \<in> set (splitLines s) \<Longrightarrow> line \<noteq> [] \<and> trim line = line"
  by (auto simp: splitLines_def trim_idem)

section \<open>Evaluation of the matcher\<close>

text \<open>
  Character tests on a character literal, as formulas of its bits: they let the
  simplifier decide a test without arithmetic.
\<close>

lemma in_range_AZ: "in_range CHR ''A'' CHR ''Z'' (Char b0 b1 b2 b3 b4 b5 b6 b7) =
   (\<not> b7 \<and> b6 \<and> \<not> b5 \<and> (b0 \<or> b1 \<or> b2 \<or> b3 \<or> b4) \<and> \<not> (b4 \<and> b3 \<and> (b2 \<or> (b1 \<and> b0))))"
  by (cases b0; cases b1; cases b2; cases b3; cases b4; cases b5; cases b6; cases b7; simp add: in_range_def)

lemma in_range_az: "in_range CHR ''a'' CHR ''z'' (Char b0 b1 b2 b3 b4 b5 b6 b7) =
   (\<not> b7 \<and> b6 \<and> b5 \<and> (b0 \<or> b1 \<or> b2 \<or> b3 \<or> b4) \<and> \<not> (b4 \<and> b3 \<and> (b2 \<or> (b1 \<and> b0))))"
  by (cases b0; cases b1; cases b2; cases b3; cases b4; cases b5; cases b6; cases b7; simp add: in_range_def)

lemma in_range_09: "in_range CHR ''0'' CHR ''9'' (Char b0 b1 b2 b3 b4 b5 b6 b7) =
   (\<not> b7 \<and> \<not> b6 \<and> b5 \<and> b4 \<and> \<not> (b3 \<and> (b2 \<or> b1)))"
  by (cases b0; cases b1; cases b2; cases b3; cases b4; cases b5; cases b6; cases b7; simp add: in_range_def)

lemma is_space_Char: "is_space (Char b0 b1 b2 b3 b4 b5 b6 b7) =
   (\<not> b6 \<and> \<not> b4 \<and>
    ((\<not> b7 \<and> \<not> b5 \<and> b3 \<and> (b0 \<or> b1 \<or> b2) \<and> \<not> (b2 \<and> b1))
     \<or> (b5 \<and> \<not> b3 \<and> \<not> b2 \<and> \<not> b1 \<and> \<not> b0)))"
  by (cases b0; cases b1; cases b2; cases b3; cases b4; cases b5; cases b6; cases b7; simp add: is_space_def)

lemma to_lower_Char: "to_lower (Char b0 b1 b2 b3 b4 b5 b6 b7) =
   Char b0 b1 b2 b3 b4
     (b5 \<or> (b6 \<and> ((\<not> b7 \<and> (b0 \<or> b1 \<or> b2 \<or> b3 \<or> b4) \<and> \<not> (b4 \<and> b3 \<and> (b2 \<or> (b1 \<and> b0))))
                 \<or> (b7 \<and> \<not> (b0 \<and> b1 \<and> b2 \<and> b3 \<and> b4) \<and> \<not> (b4 \<and> \<not> b3 \<and> b2 \<and> b1 \<and> b0)))))
     b6 b7"
  by (cases b0; cases b1; cases b2; cases b3; cases b4; cases b5; cases b6; cases b7; simp add: to_lower_def in_range_def char_of_def bit_Suc_0_iff)

lemma canonicalize_Char: "canonicalize (Char b0 b1 b2 b3 b4 b5 b6 b7) =
   Char b0 b1 b2 b3 b4
     (b5 \<and> \<not> (b6 \<and> ((\<not> b7 \<and> (b0 \<or> b1 \<or> b2 \<or> b3 \<or> b4) \<and> \<not> (b4 \<and> b3 \<and> (b2 \<or> (b1 \<and> b0))))
                 \<or> (b7 \<and> \<not> (b0 \<and> b1 \<and> b2 \<and> b3 \<and> b4) \<and> \<not> (b4 \<and> \<not> b3 \<and> b2 \<and> b1 \<and> b0)))))
     b6 b7"
  by (cases b0; cases b1; cases b2; cases b3; cases b4; cases b5; cases b6; cases b7; simp add: canonicalize_def in_range_def char_of_def bit_Suc_0_iff)

lemmas char_eval = in_range_AZ in_range_az in_range_09 is_space_Char to_lower_Char canonicalize_Char
  is_digit_def is_word_def is_line_terminator_def class_has_def in_class_def toLowerCase_def

text \<open>
  Unfolding rules for the matcher that keep the parts of a pattern folded until they are
  at the head of the continuation.
\<close>

lemma m_seqs:
  "matcher ci (Match (seqs []) # k) b s c = matcher ci k b s c"
  "matcher ci (Match (seqs (r # rs)) # k) b s c = matcher ci (Match r # Match (seqs rs) # k) b s c"
  by (simp_all add: seqs_def)

lemma m_str:
  "matcher ci (Match (str []) # k) b s c = matcher ci k b s c"
  "matcher ci (Match (str (a # as)) # k) b [] c = None"
  "matcher ci (Match (str (a # as)) # k) b (x # xs) c =
     (if (if ci then canonicalize x = canonicalize a else x = a)
      then matcher ci (Match (str as) # k) False xs c else None)"
  by (simp_all add: str_def)

lemma m_strs:
  "matcher ci (Match (strs [w]) # k) b s c = matcher ci (Match (str w) # k) b s c"
  "matcher ci (Match (strs (w # w' # vs)) # k) b s c =
     (case matcher ci (Match (str w) # k) b s c of
        Some res \<Rightarrow> Some res
      | None \<Rightarrow> matcher ci (Match (strs (w' # vs)) # k) b s c)"
  unfolding strs_def list.map by simp_all

lemma m_named: "r = r' \<Longrightarrow> matcher ci (Match r # k) b s c = matcher ci (Match r' # k) b s c"
  by simp

lemma m_named_strs: "vs = vs' \<Longrightarrow> matcher ci (Match (strs vs) # k) b s c = matcher ci (Match (strs vs') # k) b s c"
  by simp

lemma m_named_rep: "r = r' \<Longrightarrow> matcher ci (Match (Rep lo hi r) # k) b s c = matcher ci (Match (Rep lo hi r') # k) b s c"
  by simp

lemma m_star: "matcher ci (Match (many r) # k) b s c = matcher ci (Match (Rep 0 None r) # k) b s c"
  by (simp add: many_def)

lemma m_plus: "matcher ci (Match (many1 r) # k) b s c = matcher ci (Match r # Match (Rep 0 None r) # k) b s c"
  by (simp add: many1_def dec_bound_def)

lemma m_opt: "matcher ci (Match (optional r) # k) b s c = matcher ci (Match (Rep 0 (Some 1) r) # k) b s c"
  by (simp add: optional_def)

lemma m_rep_Cls:
  "hi \<noteq> Some 0 \<Longrightarrow> matcher ci (Match (Rep 0 hi (Cls neg items)) # k) b (x # xs) c =
     (if class_has ci items x \<noteq> neg
      then (case matcher ci (Match (Rep 0 (dec_bound hi) (Cls neg items)) # k) False xs c of
              Some res \<Rightarrow> Some res | None \<Rightarrow> matcher ci k b (x # xs) c)
      else matcher ci k b (x # xs) c)"
  "matcher ci (Match (Rep 0 hi (Cls neg items)) # k) b [] c = matcher ci k b [] c"
  by (subst matcher.simps(11), simp del: matcher.simps(11))+

lemma m_rep_Dot:
  "hi \<noteq> Some 0 \<Longrightarrow> matcher ci (Match (Rep 0 hi Dot) # k) b (x # xs) c =
     (if is_line_terminator x then matcher ci k b (x # xs) c
      else (case matcher ci (Match (Rep 0 (dec_bound hi) Dot) # k) False xs c of
              Some res \<Rightarrow> Some res | None \<Rightarrow> matcher ci k b (x # xs) c))"
  "matcher ci (Match (Rep 0 hi Dot) # k) b [] c = matcher ci k b [] c"
  by (subst matcher.simps(11), simp del: matcher.simps(11))+

lemma m_rep_Lit:
  "hi \<noteq> Some 0 \<Longrightarrow> matcher ci (Match (Rep 0 hi (Lit a)) # k) b (x # xs) c =
     (if (if ci then canonicalize x = canonicalize a else x = a)
      then (case matcher ci (Match (Rep 0 (dec_bound hi) (Lit a)) # k) False xs c of
              Some res \<Rightarrow> Some res | None \<Rightarrow> matcher ci k b (x # xs) c)
      else matcher ci k b (x # xs) c)"
  "matcher ci (Match (Rep 0 hi (Lit a)) # k) b [] c = matcher ci k b [] c"
  by (subst matcher.simps(11), simp del: matcher.simps(11))+

lemma m_rep_pos:
  "hi \<noteq> Some 0 \<Longrightarrow> 0 < lo \<Longrightarrow>
   matcher ci (Match (Rep lo hi r) # k) b s c = matcher ci (Match r # Match (Rep (lo - 1) (dec_bound hi) r) # k) b s c"
  by (subst matcher.simps(11), simp del: matcher.simps(11))

lemma m_rep_done: "matcher ci (Match (Rep lo (Some 0) r) # k) b s c = matcher ci k b s c"
  by simp

lemma m_rep_seqs:
  "hi \<noteq> Some 0 \<Longrightarrow> matcher ci (Match (Rep 0 hi (seqs rs)) # k) b s c =
     (case matcher ci (Match (seqs rs) # Chk (length s) (dec_bound hi) (seqs rs) # k) b s c of
        Some res \<Rightarrow> Some res
      | None \<Rightarrow> matcher ci k b s c)"
  by (subst matcher.simps(11), simp del: matcher.simps(11))

lemmas m_classes =
  m_named[OF ws_def] m_named[OF ws_colon_def] m_named[OF colon_ws_def] m_named[OF dot_ws_colon_def]
  m_named[OF upper_def] m_named[OF lower_def] m_named[OF digit_def] m_named[OF alpha_ws_def]
  m_named[OF upper_ws_def] m_named[OF alnum_def] m_named[OF alnum_hyphen_def]
  m_named[OF name_chars_def] m_named[OF date_chars_def] m_named[OF date_sep_def]
  m_named[OF ws_word_def] m_named[OF not_close_def] m_named[OF paren_opt_def]
  m_named_rep[OF ws_def] m_named_rep[OF ws_colon_def] m_named_rep[OF colon_ws_def]
  m_named_rep[OF dot_ws_colon_def]
  m_named_rep[OF upper_def] m_named_rep[OF lower_def] m_named_rep[OF digit_def]
  m_named_rep[OF alpha_ws_def]
  m_named_rep[OF upper_ws_def] m_named_rep[OF alnum_def] m_named_rep[OF alnum_hyphen_def]
  m_named_rep[OF name_chars_def] m_named_rep[OF date_chars_def] m_named_rep[OF date_sep_def]
  m_named_rep[OF ws_word_def] m_named_rep[OF not_close_def]
  m_named_strs[OF honorifics_def] m_named_strs[OF surnames_def] m_named_strs[OF surnamesShort_def]
  m_named_strs[OF months_def] m_named_strs[OF lookaheadWords_def]

lemmas m_eval = m_seqs m_str m_strs m_star m_plus m_opt m_rep_Cls m_rep_Dot m_rep_Lit m_rep_pos
  m_rep_done m_rep_seqs m_classes dec_bound_def

lemma underscore_kept: "cleanText ''a_b'' = ''a_b''"
  by (simp add: cleanText_def replace_all_class_def allowList_def char_eval trim_def)

text \<open>The class membership under the \<open>i\<close> flag is the one of the language.\<close>

lemma canonicalize_to_lower: "canonicalize (to_lower c) = canonicalize c"
  by (cases c) (auto simp: to_lower_Char canonicalize_Char)

lemma canonicalize_idem: "canonicalize (canonicalize c) = canonicalize c"
  by (cases c) (auto simp: canonicalize_Char)

lemma canonicalize_eq_cases:
  "canonicalize a = canonicalize c \<Longrightarrow> a = c \<or> a = to_lower c \<or> a = canonicalize c"
  by (cases a; cases c) (auto simp: to_lower_Char canonicalize_Char)

lemma class_has_ignore_case:
  "class_has True items c = (\<exists>a. class_has False items a \<and> canonicalize a = canonicalize c)"
proof
  assume "class_has True items c"
  then obtain i where i: "i \<in> set items"
      and h: "item_has i c \<or> item_has i (to_lower c) \<or> item_has i (canonicalize c)"
    by (auto simp: class_has_def list_ex_iff)
  from h consider "item_has i c" | "item_has i (to_lower c)" | "item_has i (canonicalize c)" by blast
  then show "\<exists>a. class_has False items a \<and> canonicalize a = canonicalize c"
  proof cases
    case 1
    with i show ?thesis by (auto simp: class_has_def list_ex_iff)
  next
    case 2
    with i have "class_has False items (to_lower c)" by (auto simp: class_has_def list_ex_iff)
    then show ?thesis using canonicalize_to_lower by blast
  next
    case 3
    with i have "class_has False items (canonicalize c)" by (auto simp: class_has_def list_ex_iff)
    then show ?thesis using canonicalize_idem by blast
  qed
next
  assume "\<exists>a. class_has False items a \<and> canonicalize a = canonicalize c"
  then obtain a where a: "class_has False items a" and e: "canonicalize a = canonicalize c" by blast
  from canonicalize_eq_cases[OF e] a show "class_has True items c"
    by (auto simp: class_has_def list_ex_iff)
qed

section \<open>The passes field by field\<close>

lemma getField_setField: "getField g (setField f v e) = (if g = f then Some v else getField g e)"
  by (cases f; cases g) simp_all

lemma patternLoop_value:
  "patternLoop f ps line e = (case firstValue f ps line of None \<Rightarrow> e | Some v \<Rightarrow> setField f v e)"
  by (induction ps) (auto simp: Let_def split: option.splits)

lemma firstValue_nonempty: "firstValue f ps line = Some v \<Longrightarrow> v \<noteq> []"
  by (induction ps) (auto simp: Let_def split: option.splits if_splits)

lemma lineValue_nonempty: "lineValue f ps ls = Some v \<Longrightarrow> v \<noteq> []"
  by (induction ls) (auto split: option.splits dest: firstValue_nonempty)

lemma lineLoop_value:
  "\<not> truthy (getField f e) \<Longrightarrow>
   lineLoop f ps ls e = (case lineValue f ps ls of None \<Rightarrow> e | Some v \<Rightarrow> setField f v e)"
proof (induction ls)
  case Nil
  then show ?case by simp
next
  case (Cons line rest)
  show ?case
  proof (cases "firstValue f ps line")
    case None
    with Cons show ?thesis by (simp add: patternLoop_value)
  next
    case (Some v)
    then have "v \<noteq> []" by (rule firstValue_nonempty)
    with Some show ?thesis
      by (simp add: patternLoop_value getField_setField truthy_def)
  qed
qed

lemma fold_fields:
  "distinct fs \<Longrightarrow> (\<And>f. f \<in> set fs \<Longrightarrow> getField f e = None) \<Longrightarrow>
   getField g (fold (\<lambda>f e. lineLoop f (patterns f) lines e) fs e) =
     (if g \<in> set fs then lineValue g (patterns g) lines else getField g e)"
proof (induction fs arbitrary: e)
  case Nil
  then show ?case by simp
next
  case (Cons f fs)
  let ?e1 = "lineLoop f (patterns f) lines e"
  have unset: "\<not> truthy (getField f e)" using Cons.prems(2)[of f] by (simp add: truthy_def)
  have e1: "?e1 = (case lineValue f (patterns f) lines of None \<Rightarrow> e | Some v \<Rightarrow> setField f v e)"
    by (rule lineLoop_value[OF unset])
  have other: "\<And>h. h \<noteq> f \<Longrightarrow> getField h ?e1 = getField h e"
    by (simp add: e1 getField_setField split: option.splits)
  have same: "getField f ?e1 = lineValue f (patterns f) lines"
    using Cons.prems(2)[of f] by (simp add: e1 getField_setField split: option.splits)
  have "\<And>h. h \<in> set fs \<Longrightarrow> getField h ?e1 = None"
  proof -
    fix h assume h: "h \<in> set fs"
    with Cons.prems(1) have "h \<noteq> f" by auto
    then have "getField h ?e1 = getField h e" by (rule other)
    then show "getField h ?e1 = None" using Cons.prems(2)[of h] h by simp
  qed
  with Cons have ih: "getField g (fold (\<lambda>f e. lineLoop f (patterns f) lines e) fs ?e1) =
     (if g \<in> set fs then lineValue g (patterns g) lines else getField g ?e1)"
    by simp
  show ?case
  proof (cases "g = f")
    case True
    with Cons.prems(1) ih same show ?thesis by simp
  next
    case False
    with ih other show ?thesis by simp
  qed
qed

lemma getField_empty: "getField h emptyParsed = None"
  by (cases h) (simp_all add: emptyParsed_def)

lemma primary_field: "getField f (primaryExtract lines) = lineValue f (patterns f) lines"
proof -
  have d: "distinct patternFields" by (simp add: patternFields_def)
  have a: "f \<in> set patternFields" by (cases f) (simp_all add: patternFields_def)
  show ?thesis
    unfolding primaryExtract_def
    using fold_fields[OF d, of emptyParsed f lines] a by (simp add: getField_empty)
qed

lemma rollFallback_keep:
  "truthy (getField f e) \<Longrightarrow> getField f (rollFallback c e) = getField f e"
  by (cases f) (simp_all add: rollFallback_def split: option.splits)

lemma institutionFallback_keep:
  "truthy (getField f e) \<Longrightarrow> getField f (institutionFallback c e) = getField f e"
  by (cases f) (simp_all add: institutionFallback_def split: option.splits)

lemma receiptNameFallback_keep:
  "truthy (getField f e) \<Longrightarrow> getField f (receiptNameFallback c e) = getField f e"
  by (cases f) (simp_all add: receiptNameFallback_def Let_def split: option.splits)

lemma receiptDateFallback_keep:
  "truthy (getField f e) \<Longrightarrow> getField f (receiptDateFallback c e) = getField f e"
  by (cases f) (simp_all add: receiptDateFallback_def split: option.splits)

lemma formPatternLoop_value:
  "formPatternLoop f ps t e = (case formValue f ps t of None \<Rightarrow> e | Some v \<Rightarrow> setField f v e)"
  by (induction ps) (auto simp: Let_def split: option.splits)

lemma formStep_keep:
  "truthy (getField f e) \<Longrightarrow> getField f (formStep t x e) = getField f e"
  by (cases x) (auto simp: formStep_def formPatternLoop_value getField_setField split: option.splits)

lemma fold_formStep_keep:
  "truthy (getField f e) \<Longrightarrow> getField f (fold (formStep t) xs e) = getField f e"
  by (induction xs arbitrary: e) (simp_all add: formStep_keep)

lemma extractFromFormFields_fold: "extractFromFormFields t e = fold (formStep t) formPatterns e"
  by (simp add: extractFromFormFields_def formStep_def)

lemma extractFromFormFields_keep:
  "truthy (getField f e) \<Longrightarrow> getField f (extractFromFormFields t e) = getField f e"
  by (simp add: extractFromFormFields_fold fold_formStep_keep)

lemma primary_truthy:
  "getField f (primaryExtract lines) = Some v \<Longrightarrow> truthy (getField f (primaryExtract lines))"
  using lineValue_nonempty[of f "patterns f" lines v] by (simp add: primary_field truthy_def)

lemma primary_kept:
  assumes "getField f (primaryExtract (splitLines (cleanText text))) = Some v"
  shows "getField f (parseCertificateText text) = Some v"
proof -
  let ?c = "cleanText text"
  let ?e0 = "primaryExtract (splitLines ?c)"
  have t0: "truthy (getField f ?e0)" using assms by (rule primary_truthy)
  have 1: "getField f (rollFallback ?c ?e0) = getField f ?e0"
    using t0 by (rule rollFallback_keep)
  have 2: "getField f (institutionFallback ?c (rollFallback ?c ?e0)) = getField f ?e0"
    using t0 1 by (simp add: institutionFallback_keep)
  have 3: "getField f (extractFromFormFields ?c (institutionFallback ?c (rollFallback ?c ?e0)))
           = getField f ?e0"
    using t0 2 by (simp add: extractFromFormFields_keep)
  have 4: "getField f (receiptNameFallback ?c
             (extractFromFormFields ?c (institutionFallback ?c (rollFallback ?c ?e0))))
           = getField f ?e0"
    using t0 3 by (simp add: receiptNameFallback_keep)
  have 5: "getField f (receiptDateFallback ?c (receiptNameFallback ?c
             (extractFromFormFields ?c (institutionFallback ?c (rollFallback ?c ?e0)))))
           = getField f ?e0"
    using t0 4 by (simp add: receiptDateFallback_keep)
  show ?thesis using 5 assms by (simp add: parseCertificateText_def Let_def)
qed

lemma formStep_other: "f \<noteq> fst x \<Longrightarrow> getField f (formStep t x e) = getField f e"
  by (cases x) (auto simp: formStep_def formPatternLoop_value getField_setField split: option.splits)

lemma formStep_same:
  "\<not> truthy (getField f e) \<Longrightarrow>
   getField f (formStep t (f, ps) e) = (case formValue f ps t of None \<Rightarrow> getField f e | Some v \<Rightarrow> Some v)"
  by (auto simp: formStep_def formPatternLoop_value getField_setField split: option.splits)

lemma fold_formStep_other:
  "f \<notin> fst ` set xs \<Longrightarrow> getField f (fold (formStep t) xs e) = getField f e"
  by (induction xs arbitrary: e) (simp_all add: formStep_other)

lemma fold_formStep_field:
  "distinct (map fst xs) \<Longrightarrow> map_of xs f = Some ps \<Longrightarrow> \<not> truthy (getField f e) \<Longrightarrow>
   getField f (fold (formStep t) xs e) =
     (case formValue f ps t of None \<Rightarrow> getField f e | Some v \<Rightarrow> Some v)"
proof (induction xs arbitrary: e)
  case Nil
  then show ?case by simp
next
  case (Cons x xs)
  obtain g qs where x: "x = (g, qs)" by (cases x)
  show ?case
  proof (cases "g = f")
    case True
    with Cons.prems x have ps: "qs = ps" and notin: "f \<notin> fst ` set xs" by auto
    have "getField f (fold (formStep t) xs (formStep t x e)) = getField f (formStep t x e)"
      using notin by (rule fold_formStep_other)
    with Cons.prems(3) show ?thesis by (simp add: x True ps formStep_same)
  next
    case False
    then have keep: "getField f (formStep t x e) = getField f e"
      by (simp add: x formStep_other)
    have "getField f (fold (formStep t) xs (formStep t x e)) =
          (case formValue f ps t of None \<Rightarrow> getField f (formStep t x e) | Some v \<Rightarrow> Some v)"
      using Cons.prems False x keep by (intro Cons.IH) auto
    then show ?thesis by (simp add: keep split: option.splits)
  qed
qed

lemma form_field:
  "map_of formPatterns f = Some ps \<Longrightarrow> \<not> truthy (getField f e) \<Longrightarrow>
   getField f (extractFromFormFields t e) =
     (case formValue f ps t of None \<Rightarrow> getField f e | Some v \<Rightarrow> Some v)"
proof -
  have d: "distinct (map fst formPatterns)" by (simp add: formPatterns_def)
  show "map_of formPatterns f = Some ps \<Longrightarrow> \<not> truthy (getField f e) \<Longrightarrow> ?thesis"
    unfolding extractFromFormFields_fold by (rule fold_formStep_field[OF d])
qed

lemma studentName_roll: "studentName (rollFallback c e) = studentName e"
  by (simp add: rollFallback_def split: option.splits)

lemma studentName_inst: "studentName (institutionFallback c e) = studentName e"
  by (simp add: institutionFallback_def split: option.splits)

lemma studentName_date: "studentName (receiptDateFallback c e) = studentName e"
  by (simp add: receiptDateFallback_def split: option.splits)

lemma studentName_receipt:
  "\<not> truthy (studentName e) \<Longrightarrow>
   studentName (receiptNameFallback c e) =
     (case js_match receiptNamePattern c of
        None \<Rightarrow> studentName e
      | Some mt \<Rightarrow>
          (case grp mt 1 of
             None \<Rightarrow> studentName e
           | Some g \<Rightarrow> Some (dropInstitutionWords (trim (js_replace receiptParen [] (trim g))))))"
  by (simp add: receiptNameFallback_def Let_def split: option.splits)

lemma form_name_patterns: "map_of formPatterns StudentName = Some formNamePatterns"
  by (simp add: formPatterns_def formNamePatterns_def)

lemma parse_fold:
  "parseCertificateText text =
     fold (\<lambda>pass e. pass e) (fallbackPasses (cleanText text))
          (primaryExtract (splitLines (cleanText text)))"
  by (simp add: parseCertificateText_def fallbackPasses_def Let_def)

lemma pass_keep:
  "pass \<in> set (fallbackPasses c) \<Longrightarrow> truthy (getField f e) \<Longrightarrow> getField f (pass e) = getField f e"
  by (auto simp: fallbackPasses_def rollFallback_keep institutionFallback_keep
      extractFromFormFields_keep receiptNameFallback_keep receiptDateFallback_keep)

lemma fold_pass_keep:
  "set ps \<subseteq> set (fallbackPasses c) \<Longrightarrow> truthy (getField f e) \<Longrightarrow>
   getField f (fold (\<lambda>pass e. pass e) ps e) = getField f e"
proof (induction ps arbitrary: e)
  case Nil
  then show ?case by simp
next
  case (Cons p ps)
  then have k: "getField f (p e) = getField f e" using pass_keep[of p c f e] by simp
  with Cons.prems have "truthy (getField f (p e))" by simp
  with Cons have "getField f (fold (\<lambda>pass e. pass e) ps (p e)) = getField f (p e)" by simp
  with k show ?case by simp
qed

lemma invalid_type_result:
  "\<not> isValidFileType file \<Longrightarrow>
   extractText env file =
     (Inl (Error ''Failed to extract text from document. Please ensure the file is a valid image.''), 0)"
  by (simp add: extractText_def tryBlock_def)

lemma parse_field_of_first:
  assumes "cleanText t = c" and "c \<noteq> []" and "firstValue f (patterns f) c = Some v"
  shows "getField f (parseCertificateText t) = Some v"
proof -
  have l: "splitLines (cleanText t) = [c]"
    using assms(1,2) by (subst splitLines_clean) simp
  have "getField f (primaryExtract (splitLines (cleanText t))) = Some v"
    unfolding primary_field l lineValue.simps assms(3) by simp
  then show ?thesis by (rule primary_kept)
qed

lemma fold_skip: "fold (\<lambda>f e. e) fs e = e"
  by (induction fs) simp_all

lemma lineLoop_nil: "lineLoop f ps [] = (\<lambda>e. e)"
  by (rule ext) simp

lemma lineLoop_single: "lineLoop f ps [line] = patternLoop f ps line"
  by (rule ext) (simp add: Let_def)

section \<open>Groups that are read without a test\<close>

lemma m_sets_group:
  "matcher ci k b s c = Some (c', rest) \<Longrightarrow> (\<exists>fr \<in> set k. frame_sets i fr) \<or> i \<in> fst ` set c \<Longrightarrow>
   i \<in> fst ` set c'"
proof (induction ci k b s c arbitrary: c' rest rule: matcher.induct)
  case (10 ci r1 r2 k b s c)
  then show ?case by (auto split: option.splits)
next
  case (11 ci lo hi r k b s c)
  then show ?case by (auto split: option.splits if_splits)
next
  case (15 ci r k b s c)
  then show ?case by (auto split: option.splits)
qed (auto split: if_splits)

lemma search_sets_group:
  "search ci r b s = Some (st, c, rest) \<Longrightarrow> sets_group i r \<Longrightarrow> i \<in> fst ` set c"
proof (induction s arbitrary: b)
  case Nil
  then show ?case using m_sets_group[of ci "[Match r]" b "[]" "[]" c rest i]
    by (auto split: option.splits)
next
  case (Cons x xs)
  then show ?case using m_sets_group[of ci "[Match r]" b "x # xs" "[]" c rest i]
    by (auto split: option.splits)
qed

lemma js_match_group:
  "js_match p s = Some mt \<Longrightarrow> sets_group i (snd p) \<Longrightarrow> grp mt i \<noteq> None"
proof -
  assume a: "js_match p s = Some mt" and g: "sets_group i (snd p)"
  from a obtain st c rest where s: "search (fst p) (snd p) True s = Some (st, c, rest)"
      and mt: "snd mt = c"
    by (auto simp: js_match_def split: option.splits)
  from search_sets_group[OF s g] have "i \<in> fst ` set c" .
  then have "map_of c i \<noteq> None" by (simp add: map_of_eq_None_iff)
  with mt show ?thesis by (simp add: grp_def)
qed

lemma sets_group_seqs: "sets_group i (seqs rs) = list_ex (sets_group i) rs"
  by (induction rs) (simp_all add: seqs_def)

lemma unchecked_groups:
  "js_match receiptNamePattern s = Some mt \<Longrightarrow> grp mt 1 \<noteq> None"
  "js_match monthDayYearPattern s = Some mt \<Longrightarrow> grp mt 1 \<noteq> None \<and> grp mt 2 \<noteq> None"
  "js_match (True, Grp 1 (seqs [many1 alpha_ws,
       strs [''institute'', ''college'', ''university'', ''school'']])) s = Some mt \<Longrightarrow> grp mt 1 \<noteq> None"
  using js_match_group[of receiptNamePattern s mt 1]
        js_match_group[of monthDayYearPattern s mt 1] js_match_group[of monthDayYearPattern s mt 2]
        js_match_group[of "(True, Grp 1 (seqs [many1 alpha_ws,
       strs [''institute'', ''college'', ''university'', ''school'']]))" s mt 1]
  by (simp_all add: receiptNamePattern_def monthDayYearPattern_def sets_group_seqs)

section \<open>Evaluation of the scenarios\<close>

lemmas pipe_eval = accepted_def js_match_def js_test_def js_replace_def grp_def trim_def
  dropInstitutionWords_def trailingParen_def leadingTitle_def institutionWords_def cleanDate_def
  monthNames_def monthNumber_def padStart_def replace_all_class_def Let_def receiptParen_def
  receiptNamePattern_def monthLoosePattern_def monthDayYearPattern_def dayMonthYearPattern_def

lemma c5_clean: "cleanText text5 = ''XYZ Institute of Technology Mr. RAJESH KUMAR''"
  by (simp add: text5_def cleanText_def replace_all_class_def allowList_def char_eval trim_def)

lemma c5_first:
  "firstValue StudentName (patterns StudentName) ''XYZ Institute of Technology Mr. RAJESH KUMAR''
     = Some ''RAJESH KUMAR''"
  by (simp add: pipe_eval m_eval char_eval del: matcher.simps(11))

lemma c5_primary:
  "getField StudentName (primaryExtract (splitLines (cleanText text5))) = Some ''RAJESH KUMAR''"
proof -
  have l: "splitLines (cleanText text5) = [''XYZ Institute of Technology Mr. RAJESH KUMAR'']"
    by (subst splitLines_clean) (simp add: c5_clean)
  show ?thesis unfolding primary_field l lineValue.simps c5_first by simp
qed

lemma c1_clean: "cleanText text1 = clean1"
  by (simp add: text1_def clean1_def cleanText_def replace_all_class_def allowList_def char_eval trim_def)

lemma c1_name: "firstValue StudentName (patterns StudentName) clean1 = Some ''NIKHIL SUREDRA PATIL''"
  by (simp add: clean1_def pipe_eval m_eval char_eval del: matcher.simps(11))

lemma c1_cert: "firstValue CertificateNumber (patterns CertificateNumber) clean1 = Some ''123456''"
  by (simp add: clean1_def pipe_eval m_eval char_eval del: matcher.simps(11))

lemma c1_date: "firstValue DateIssued (patterns DateIssued) clean1 = Some ''27, 2025''"
  by (simp add: clean1_def pipe_eval m_eval char_eval del: matcher.simps(11))

lemma c1_ne: "clean1 \<noteq> []" by (simp add: clean1_def)

lemma c2_clean_a: "cleanText ''June 27, 2025'' = ''June 27, 2025''"
  by (simp add: cleanText_def replace_all_class_def allowList_def char_eval trim_def)

lemma c2_date_a: "firstValue DateIssued (patterns DateIssued) ''June 27, 2025'' = Some ''27, 2025''"
  by (simp add: pipe_eval m_eval char_eval del: matcher.simps(11))

lemma c2_clean_b: "cleanText ''15/08/2024'' = ''15/08/2024''"
  by (simp add: cleanText_def replace_all_class_def allowList_def char_eval trim_def)

lemma c2_date_b: "firstValue DateIssued (patterns DateIssued) ''15/08/2024'' = Some ''15/08/2024''"
  by (simp add: pipe_eval m_eval char_eval del: matcher.simps(11))

lemma c2_cleanDate: "cleanDate ''June 27, 2025'' = ''27/06/2025''"
  by (simp add: pipe_eval char_eval)

lemma c4_clean: "cleanText text4 = text4"
  by (simp add: text4_def cleanText_def replace_all_class_def allowList_def char_eval trim_def)

lemma c4_primary: "firstValue StudentName (patterns StudentName) text4 = None"
  by (simp add: text4_def pipe_eval m_eval char_eval del: matcher.simps(11))

lemma c4_form: "formValue StudentName formNamePatterns text4 = Some ''(KHAN)''"
  by (simp add: text4_def formNamePatterns_def pipe_eval m_eval char_eval del: matcher.simps(11))

lemma c4_receipt: "js_match receiptNamePattern text4 = Some (''Mr.XXALI'', [(1, ''XXALI'')])"
  by (simp add: text4_def pipe_eval m_eval char_eval del: matcher.simps(11))

lemma c4_receipt_clean: "dropInstitutionWords (trim (js_replace receiptParen [] (trim ''XXALI''))) = ''XXALI''"
  by (simp add: pipe_eval m_eval char_eval del: matcher.simps(11))

lemma c3_date: "getField DateIssued (primaryExtract (splitLines (cleanText ''15/08/2024''))) = Some ''15/08/2024''"
proof -
  have l: "splitLines (cleanText ''15/08/2024'') = [''15/08/2024'']"
    by (subst splitLines_clean) (simp add: c2_clean_b)
  show ?thesis unfolding primary_field l lineValue.simps c2_date_b by simp
qed

lemma c4_lines: "splitLines (cleanText text4) = [text4]"
proof -
  have "text4 \<noteq> []" by (simp add: text4_def)
  then show ?thesis by (subst splitLines_clean) (simp add: c4_clean)
qed

lemma c4_e0: "studentName (primaryExtract (splitLines (cleanText text4))) = None"
  using primary_field[of StudentName "splitLines (cleanText text4)"]
  unfolding c4_lines lineValue.simps c4_primary by simp

lemma c4_code: "studentName (parseCertificateText text4) = Some ''(KHAN)''"
proof -
  let ?e2 = "institutionFallback text4 (rollFallback text4 (primaryExtract (splitLines (cleanText text4))))"
  have 2: "studentName ?e2 = None" by (simp add: studentName_inst studentName_roll c4_e0)
  then have nt: "\<not> truthy (getField StudentName ?e2)" by (simp add: truthy_def)
  have 3: "getField StudentName (extractFromFormFields text4 ?e2) = Some ''(KHAN)''"
    using form_field[OF form_name_patterns nt, of text4] by (simp add: c4_form)
  then have t3: "truthy (getField StudentName (extractFromFormFields text4 ?e2))"
    by (simp add: truthy_def)
  have 4: "getField StudentName (receiptNameFallback text4 (extractFromFormFields text4 ?e2)) = Some ''(KHAN)''"
    using receiptNameFallback_keep[OF t3] 3 by simp
  then show ?thesis
    by (simp add: parseCertificateText_def Let_def c4_clean studentName_date)
qed

lemma c4_spec: "studentName (specOrderParse text4) = Some ''XXALI''"
proof -
  let ?e2 = "institutionFallback text4 (rollFallback text4 (primaryExtract (splitLines (cleanText text4))))"
  have 2: "studentName ?e2 = None" by (simp add: studentName_inst studentName_roll c4_e0)
  then have nt: "\<not> truthy (studentName ?e2)" by (simp add: truthy_def)
  have 3: "studentName (receiptNameFallback text4 ?e2) = Some ''XXALI''"
    using studentName_receipt[OF nt, of text4] by (simp add: c4_receipt grp_def c4_receipt_clean)
  then have 4: "getField StudentName (receiptDateFallback text4 (receiptNameFallback text4 ?e2)) = Some ''XXALI''"
    by (simp add: studentName_date)
  then have "truthy (getField StudentName (receiptDateFallback text4 (receiptNameFallback text4 ?e2)))"
    by (simp add: truthy_def)
  from extractFromFormFields_keep[OF this] 4 show ?thesis
    by (simp add: specOrderParse_def Let_def c4_clean)
qed

lemma spec_underscore: "\<not> in_class False specAllowList CHR ''_''"
  by (simp add: specAllowList_def char_eval)

lemma code_underscore: "in_class False allowList CHR ''_''"
  by (simp add: allowList_def char_eval)

section \<open>The cleaned text as words joined by blanks\<close>

text \<open>
  The first replacement works character by character; collapsing the white space of a text
  gives its words joined by single blanks, with one blank before them when the text starts
  with white space and one after them when it ends with white space; trimming removes
  these two.  So the cleaned text is the words of kept characters of the raw text, joined
  by single blanks.
\<close>

lemma replace_class_map:
  "replace_all_class neg items [b] s = map (\<lambda>c. if in_class neg items c then b else c) s"
  by (induction s) (simp_all add: replace_all_class_def)

lemma tokens_dropWhile: "tokens keep (dropWhile (\<lambda>c. \<not> keep c) s) = tokens keep s"
  by (induction s) simp_all

lemma tokens_map:
  assumes "\<And>c. keep' (g c) = keep c" and "\<And>c. keep c \<Longrightarrow> g c = c"
  shows "tokens keep' (map g s) = tokens keep s"
proof (induction "length s" arbitrary: s rule: less_induct)
  case less
  show ?case
  proof (cases s)
    case Nil
    then show ?thesis by simp
  next
    case (Cons c cs)
    show ?thesis
  proof (cases "keep c")
    case True
    have tw: "takeWhile keep' (map g cs) = takeWhile keep cs"
    proof -
      have "takeWhile keep' (map g cs) = map g (takeWhile (keep' \<circ> g) cs)"
        by (rule takeWhile_map)
      also have "keep' \<circ> g = keep" using assms(1) by (auto simp: fun_eq_iff)
      also have "map g (takeWhile keep cs) = takeWhile keep cs"
      proof (rule map_idI)
        fix x assume "x \<in> set (takeWhile keep cs)"
        then have "keep x" by (rule set_takeWhileD[THEN conjunct2])
        then show "g x = x" by (rule assms(2))
      qed
      finally show ?thesis .
    qed
    have dw: "dropWhile keep' (map g cs) = map g (dropWhile keep cs)"
    proof -
      have "dropWhile keep' (map g cs) = map g (dropWhile (keep' \<circ> g) cs)"
        by (rule dropWhile_map)
      also have "keep' \<circ> g = keep" using assms(1) by (auto simp: fun_eq_iff)
      finally show ?thesis .
    qed
    have "length (dropWhile keep cs) < length s"
      using length_dropWhile_le[of keep cs] by (simp add: Cons)
    then have ih: "tokens keep' (map g (dropWhile keep cs)) = tokens keep (dropWhile keep cs)"
      by (rule less.hyps)
    have gc: "g c = c" using True by (rule assms(2))
    have kc: "keep' c" using assms(1)[of c] True gc by simp
    have "tokens keep' (map g s)
          = (c # takeWhile keep' (map g cs)) # tokens keep' (dropWhile keep' (map g cs))"
      using kc by (simp add: Cons gc)
    also have "\<dots> = (c # takeWhile keep cs) # tokens keep (dropWhile keep cs)"
      by (simp only: tw dw ih)
    also have "\<dots> = tokens keep s" using True by (simp add: Cons)
    finally show ?thesis .
  next
    case False
    have "length cs < length s" by (simp add: Cons)
    then have ih: "tokens keep' (map g cs) = tokens keep cs" by (rule less.hyps)
    have kc: "\<not> keep' (g c)" using assms(1)[of c] False by simp
    have "tokens keep' (map g s) = tokens keep' (map g cs)"
      using kc by (simp add: Cons)
    with ih False show ?thesis by (simp add: Cons)
  qed
  qed
qed

lemma runs_split:
  "replace_all_runs False [CSpace] '' '' cs =
     takeWhile (\<lambda>c. \<not> is_space c) cs
     @ replace_all_runs False [CSpace] '' '' (dropWhile (\<lambda>c. \<not> is_space c) cs)"
  by (induction cs) auto

lemma runs_dropWhile:
  "dropWhile is_space (replace_all_runs False [CSpace] '' '' s)
     = replace_all_runs False [CSpace] '' '' (dropWhile is_space s)"
proof (cases s)
  case Nil
  then show ?thesis by simp
next
  case (Cons c cs)
  show ?thesis
  proof (cases "is_space c")
    case True
    let ?u = "dropWhile is_space cs"
    have "replace_all_runs False [CSpace] '' '' ?u = []
          \<or> \<not> is_space (hd (replace_all_runs False [CSpace] '' '' ?u))"
      by (rule runs_head[OF dropWhile_head])
    then have "dropWhile is_space (replace_all_runs False [CSpace] '' '' ?u)
               = replace_all_runs False [CSpace] '' '' ?u"
      by (cases "replace_all_runs False [CSpace] '' '' ?u") auto
    with True Cons show ?thesis by simp
  next
    case False
    with Cons show ?thesis by simp
  qed
qed

lemma trim_end_keep:
  assumes "\<exists>x \<in> set ys. \<not> is_space x"
  shows "rev (dropWhile is_space (rev (xs @ ys))) = xs @ rev (dropWhile is_space (rev ys))"
proof -
  from assms obtain x where "x \<in> set (rev ys)" and "\<not> is_space x" by auto
  then have "dropWhile is_space (rev ys @ rev xs) = dropWhile is_space (rev ys) @ rev xs"
    by (rule dropWhile_append1)
  then show ?thesis by simp
qed

lemma trim_end_nonspace:
  "xs \<noteq> [] \<Longrightarrow> \<not> is_space (last xs) \<Longrightarrow> rev (dropWhile is_space (rev xs)) = xs"
  by (cases xs rule: rev_cases) simp_all

lemma runs_tokens:
  "s = [] \<or> \<not> is_space (hd s) \<Longrightarrow>
   rev (dropWhile is_space (rev (replace_all_runs False [CSpace] '' '' s)))
     = join '' '' (tokens (\<lambda>c. \<not> is_space c) s)"
proof (induction "length s" arbitrary: s rule: less_induct)
  case less
  show ?case
  proof (cases s)
    case Nil
    then show ?thesis by simp
  next
    case (Cons c cs)
    with less.prems have nc: "\<not> is_space c" by simp
    define tok where "tok = c # takeWhile (\<lambda>c. \<not> is_space c) cs"
    define rest where "rest = dropWhile (\<lambda>c. \<not> is_space c) cs"
    have tokne: "tok \<noteq> []" by (simp add: tok_def)
    have tokns: "\<And>x. x \<in> set tok \<Longrightarrow> \<not> is_space x"
      using nc by (auto simp: tok_def dest: set_takeWhileD)
    have "last tok \<in> set tok" using tokne by (rule last_in_set)
    then have toklast: "\<not> is_space (last tok)" by (rule tokns)
    have tokid: "rev (dropWhile is_space (rev tok)) = tok"
      using tokne toklast by (rule trim_end_nonspace)
    have runs: "replace_all_runs False [CSpace] '' '' s
                = tok @ replace_all_runs False [CSpace] '' '' rest"
      using nc runs_split[of cs] by (simp add: Cons tok_def rest_def)
    have toks: "tokens (\<lambda>c. \<not> is_space c) s = tok # tokens (\<lambda>c. \<not> is_space c) rest"
      using nc by (simp add: Cons tok_def rest_def)
    show ?thesis
    proof (cases rest)
      case Nil
      show ?thesis unfolding runs toks Nil by (simp add: tokid)
    next
      case r: (Cons d ds)
      have "rest \<noteq> []" using r by simp
      then have "\<not> \<not> is_space (hd rest)" unfolding rest_def by (rule hd_dropWhile)
      then have sd: "is_space d" using r by simp
      define s2 where "s2 = dropWhile is_space ds"
      have rr: "replace_all_runs False [CSpace] '' '' rest
                = CHR '' '' # replace_all_runs False [CSpace] '' '' s2"
        using sd by (simp add: r s2_def)
      have "tokens (\<lambda>c. \<not> is_space c) rest = tokens (\<lambda>c. \<not> is_space c) ds"
        using sd by (simp add: r)
      also have "\<dots> = tokens (\<lambda>c. \<not> is_space c) s2"
        using tokens_dropWhile[of "\<lambda>c. \<not> is_space c" ds] by (simp add: s2_def)
      finally have tt: "tokens (\<lambda>c. \<not> is_space c) rest = tokens (\<lambda>c. \<not> is_space c) s2" .
      have len: "length s2 < length s"
      proof -
        have "length s2 \<le> length ds" unfolding s2_def by (rule length_dropWhile_le)
        moreover have "length rest \<le> length cs" unfolding rest_def by (rule length_dropWhile_le)
        ultimately show ?thesis by (simp add: r Cons)
      qed
      have hd2: "s2 = [] \<or> \<not> is_space (hd s2)" unfolding s2_def by (rule dropWhile_head)
      have ih: "rev (dropWhile is_space (rev (replace_all_runs False [CSpace] '' '' s2)))
                = join '' '' (tokens (\<lambda>c. \<not> is_space c) s2)"
        using len hd2 by (rule less.hyps)
      show ?thesis
      proof (cases s2)
        case Nil
        have "rev (dropWhile is_space (rev (tok @ '' ''))) = tok"
          using tokid by simp
        then show ?thesis unfolding runs toks rr tt Nil by simp
      next
        case s2c: (Cons x xs)
        with hd2 have nx: "\<not> is_space x" by simp
        have r2: "replace_all_runs False [CSpace] '' '' s2
                  = x # replace_all_runs False [CSpace] '' '' xs"
          using nx by (simp add: s2c)
        have ex: "\<exists>y \<in> set (CHR '' '' # replace_all_runs False [CSpace] '' '' s2). \<not> is_space y"
          using nx by (simp add: r2)
        have ex2: "\<exists>y \<in> set (replace_all_runs False [CSpace] '' '' s2). \<not> is_space y"
          using nx by (simp add: r2)
        obtain w vs where t2: "tokens (\<lambda>c. \<not> is_space c) s2 = w # vs"
          using nx by (simp add: s2c)
        have "rev (dropWhile is_space (rev (replace_all_runs False [CSpace] '' '' s)))
              = tok @ rev (dropWhile is_space
                     (rev (CHR '' '' # replace_all_runs False [CSpace] '' '' s2)))"
          unfolding runs rr by (rule trim_end_keep[OF ex])
        also have "rev (dropWhile is_space
                     (rev (CHR '' '' # replace_all_runs False [CSpace] '' '' s2)))
              = '' '' @ rev (dropWhile is_space (rev (replace_all_runs False [CSpace] '' '' s2)))"
          using trim_end_keep[OF ex2, of "'' ''"] by simp
        also have "tok @ '' '' @ rev (dropWhile is_space (rev (replace_all_runs False [CSpace] '' '' s2)))
              = join '' '' (tokens (\<lambda>c. \<not> is_space c) s)"
          unfolding ih toks tt t2 by simp
        finally show ?thesis .
      qed
    qed
  qed
qed

lemma trim_runs_tokens:
  "trim (replace_all_runs False [CSpace] '' '' s) = join '' '' (tokens (\<lambda>c. \<not> is_space c) s)"
proof -
  have "trim (replace_all_runs False [CSpace] '' '' s)
        = rev (dropWhile is_space (rev (replace_all_runs False [CSpace] '' '' (dropWhile is_space s))))"
    by (simp add: trim_def runs_dropWhile)
  also have "\<dots> = join '' '' (tokens (\<lambda>c. \<not> is_space c) (dropWhile is_space s))"
    by (rule runs_tokens[OF dropWhile_head])
  also have "\<dots> = join '' '' (tokens (\<lambda>c. \<not> is_space c) s)"
    using tokens_dropWhile[of "\<lambda>c. \<not> is_space c" s] by simp
  finally show ?thesis .
qed

lemma cleanText_tokens: "cleanText raw = join '' '' (tokens kept raw)"
proof -
  let ?g = "\<lambda>c. if in_class True allowList c then CHR '' '' else c"
  have a: "\<And>c. (\<not> is_space (?g c)) = kept c"
    by (auto simp: kept_def in_class_flip)
  have b: "\<And>c. kept c \<Longrightarrow> ?g c = c"
    by (auto simp: kept_def in_class_flip)
  have "tokens (\<lambda>c. \<not> is_space c) (map ?g raw) = tokens kept raw"
    using tokens_map[of "\<lambda>c. \<not> is_space c" "?g" kept raw] a b by blast
  then show ?thesis
    by (simp add: cleanText_def replace_class_map trim_runs_tokens)
qed

lemma tokens_nonempty: "w \<in> set (tokens keep s) \<Longrightarrow> w \<noteq> [] \<and> (\<forall>c \<in> set w. keep c)"
proof (induction keep s rule: tokens.induct)
  case (1 keep)
  then show ?case by simp
next
  case (2 keep c cs)
  show ?case
  proof (cases "keep c")
    case True
    with 2(3) have "w = c # takeWhile keep cs \<or> w \<in> set (tokens keep (dropWhile keep cs))"
      by simp
    then show ?thesis
    proof
      assume w: "w = c # takeWhile keep cs"
      have "\<forall>x \<in> set (takeWhile keep cs). keep x"
        using set_takeWhileD[of _ keep cs] by blast
      with True w show ?thesis by simp
    next
      assume "w \<in> set (tokens keep (dropWhile keep cs))"
      with True show ?thesis by (rule 2(1))
    qed
  next
    case False
    with 2(3) have "w \<in> set (tokens keep cs)" by simp
    with False show ?thesis by (rule 2(2))
  qed
qed

lemma tokens_concat: "concat (tokens keep s) = filter keep s"
proof (induction keep s rule: tokens.induct)
  case (1 keep)
  then show ?case by simp
next
  case (2 keep c cs)
  have "filter keep cs = takeWhile keep cs @ filter keep (dropWhile keep cs)"
    by (induction cs) auto
  with 2 show ?case by simp
qed

lemma join_empty: "join d vs = [] \<Longrightarrow> (\<forall>w \<in> set vs. w \<noteq> []) \<Longrightarrow> vs = []"
  by (induction d vs rule: join.induct) auto


lemma tokens_empty: "(join '' '' (tokens keep s) = []) = (tokens keep s = [])"
proof
  assume j: "join '' '' (tokens keep s) = []"
  have "\<forall>w \<in> set (tokens keep s). w \<noteq> []" using tokens_nonempty by blast
  with j show "tokens keep s = []" by (rule join_empty)
next
  assume "tokens keep s = []"
  then show "join '' '' (tokens keep s) = []" by simp
qed

lemma splitLines_tokens:
  "splitLines (cleanText raw)
     = (if tokens kept raw = [] then [] else [join '' '' (tokens kept raw)])"
proof -
  have "splitLines (cleanText raw) = (if cleanText raw = [] then [] else [cleanText raw])"
    by (rule splitLines_clean)
  also have "\<dots> = (if join '' '' (tokens kept raw) = [] then []
                      else [join '' '' (tokens kept raw)])"
    by (simp only: cleanText_tokens)
  also have "\<dots> = (if tokens kept raw = [] then [] else [join '' '' (tokens kept raw)])"
    by (simp only: tokens_empty)
  finally show ?thesis .
qed

lemma split_char_ne: "split_char d s \<noteq> []"
  by (induction s) (simp_all split: list.splits)

lemma split_char_join: "join [d] (split_char d s) = s"
proof (induction s)
  case Nil
  then show ?case by simp
next
  case (Cons c cs)
  obtain w vs where sp: "split_char d cs = w # vs"
    using split_char_ne[of d cs] by (cases "split_char d cs") auto
  have jc: "\<And>x. join [d] ((x # w) # vs) = x # join [d] (w # vs)"
    by (cases vs) simp_all
  have jn: "join [d] ([] # w # vs) = d # join [d] (w # vs)"
    by simp
  show ?case
  proof (cases "c = d")
    case True
    then show ?thesis using Cons by (simp add: sp)
  next
    case False
    then show ?thesis using Cons jc[of c] by (simp add: sp)
  qed
qed

lemma split_char_pieces: "p \<in> set (split_char d s) \<Longrightarrow> d \<notin> set p"
proof (induction s arbitrary: p)
  case Nil
  then show ?case by simp
next
  case (Cons c cs)
  obtain w vs where sp: "split_char d cs = w # vs"
    using split_char_ne[of d cs] by (cases "split_char d cs") auto
  show ?case
  proof (cases "c = d")
    case True
    with Cons.prems have "p = [] \<or> p \<in> set (split_char d cs)" by simp
    then show ?thesis using Cons.IH by auto
  next
    case False
    with Cons.prems sp have "p = c # w \<or> p \<in> set vs" by simp
    moreover have "d \<notin> set w" using Cons.IH[of w] sp by simp
    moreover have "p \<in> set vs \<Longrightarrow> d \<notin> set p" using Cons.IH[of p] sp by simp
    ultimately show ?thesis using False by auto
  qed
qed

lemma lines_pieces:
  "\<exists>pieces. join [CHR 0x0A] pieces = s \<and> (\<forall>p \<in> set pieces. CHR 0x0A \<notin> set p)
     \<and> splitLines s = filter (\<lambda>l. l \<noteq> []) (map trim pieces)"
proof (intro exI conjI)
  show "join [CHR 0x0A] (split_char CHR 0x0A s) = s" by (rule split_char_join)
  show "\<forall>p \<in> set (split_char CHR 0x0A s). CHR 0x0A \<notin> set p"
    using split_char_pieces by blast
  show "splitLines s = filter (\<lambda>l. l \<noteq> []) (map trim (split_char CHR 0x0A s))"
    by (simp add: splitLines_def)
qed

lemma allowList_members:
  "in_class False allowList c
     = (in_range CHR ''A'' CHR ''Z'' c \<or> in_range CHR ''a'' CHR ''z'' c
        \<or> in_range CHR ''0'' CHR ''9'' c \<or> c = CHR ''_'' \<or> is_space c
        \<or> c \<in> set ''-.,/:()'')"
  by (auto simp: in_class_def class_has_def allowList_def is_word_def is_digit_def)

lemma underscore_survives: "CHR ''_'' \<in> set raw \<Longrightarrow> CHR ''_'' \<in> set (cleanText raw)"
proof -
  assume u: "CHR ''_'' \<in> set raw"
  have k: "\<not> in_class True allowList CHR ''_'' \<and> \<not> is_space CHR ''_''"
    using code_underscore by (simp add: in_class_flip char_eval)
  with u have "CHR ''_'' \<in> set (filter (\<lambda>c. \<not> in_class True allowList c \<and> \<not> is_space c) raw)"
    by simp
  then have "CHR ''_'' \<in> set (filter (\<lambda>c. \<not> is_space c) (cleanText raw))"
    by (simp only: cleanText_content)
  then show ?thesis by simp
qed

lemma tokens_none: "(tokens keep s = []) = (\<forall>c \<in> set s. \<not> keep c)"
proof
  assume "tokens keep s = []"
  then have "filter keep s = []" using tokens_concat[of keep s] by simp
  then show "\<forall>c \<in> set s. \<not> keep c" by (simp add: filter_empty_conv)
next
  assume "\<forall>c \<in> set s. \<not> keep c"
  then show "tokens keep s = []" by (induction s) simp_all
qed

lemma last_dropWhile: "dropWhile P cs \<noteq> [] \<Longrightarrow> last (c # cs) = last (dropWhile P cs)"
proof -
  assume n: "dropWhile P cs \<noteq> []"
  have "cs = takeWhile P cs @ dropWhile P cs" by simp
  then have "last cs = last (takeWhile P cs @ dropWhile P cs)" by simp
  also have "\<dots> = last (dropWhile P cs)" using n by (rule last_appendR)
  finally have a: "last cs = last (dropWhile P cs)" .
  have "cs \<noteq> []" using n by auto
  then have "last (c # cs) = last cs" by simp
  with a show ?thesis by simp
qed

lemma runs_exact:
  "replace_all_runs False [CSpace] '' '' s
     = (if s \<noteq> [] \<and> is_space (hd s) then '' '' else [])
       @ join '' '' (tokens (\<lambda>c. \<not> is_space c) s)
       @ (if tokens (\<lambda>c. \<not> is_space c) s \<noteq> [] \<and> is_space (last s) then '' '' else [])"
proof (induction "length s" arbitrary: s rule: less_induct)
  case less
  show ?case
  proof (cases s)
    case Nil
    then show ?thesis by simp
  next
    case (Cons c cs)
    show ?thesis
    proof (cases "is_space c")
      case True
      define s2 where "s2 = dropWhile is_space cs"
      have R: "replace_all_runs False [CSpace] '' '' s
               = CHR '' '' # replace_all_runs False [CSpace] '' '' s2"
        using True by (simp add: Cons s2_def)
      have tk: "tokens (\<lambda>c. \<not> is_space c) s = tokens (\<lambda>c. \<not> is_space c) s2"
        using True tokens_dropWhile[of "\<lambda>c. \<not> is_space c" cs] by (simp add: Cons s2_def)
      have lead: "(if s \<noteq> [] \<and> is_space (hd s) then '' '' else []) = '' ''"
        using True by (simp add: Cons)
      show ?thesis
      proof (cases s2)
        case Nil
        have "replace_all_runs False [CSpace] '' '' s = '' ''"
          unfolding R Nil by simp
        moreover have "tokens (\<lambda>c. \<not> is_space c) s = []"
          unfolding tk Nil by simp
        ultimately show ?thesis unfolding lead by simp
      next
        case s2c: (Cons x xs)
        have "s2 = [] \<or> \<not> is_space (hd s2)" unfolding s2_def by (rule dropWhile_head)
        then have lead2: "(if s2 \<noteq> [] \<and> is_space (hd s2) then '' '' else []) = []"
          by auto
        have len: "length s2 < length s"
          using length_dropWhile_le[of is_space cs] by (simp add: s2_def Cons)
        have ih: "replace_all_runs False [CSpace] '' '' s2
               = (if s2 \<noteq> [] \<and> is_space (hd s2) then '' '' else [])
                 @ join '' '' (tokens (\<lambda>c. \<not> is_space c) s2)
                 @ (if tokens (\<lambda>c. \<not> is_space c) s2 \<noteq> [] \<and> is_space (last s2)
                    then '' '' else [])"
          using len by (rule less.hyps)
        have "s2 \<noteq> []" using s2c by simp
        then have l: "last s = last s2"
          unfolding s2_def Cons by (rule last_dropWhile)
        show ?thesis unfolding R ih lead lead2 tk l by simp
      qed
    next
      case False
      define tok where "tok = c # takeWhile (\<lambda>c. \<not> is_space c) cs"
      define rest where "rest = dropWhile (\<lambda>c. \<not> is_space c) cs"
      have tokns: "\<And>x. x \<in> set tok \<Longrightarrow> \<not> is_space x"
        using False by (auto simp: tok_def dest: set_takeWhileD)
      have tokne: "tok \<noteq> []" by (simp add: tok_def)
      have R: "replace_all_runs False [CSpace] '' '' s
               = tok @ replace_all_runs False [CSpace] '' '' rest"
        using False runs_split[of cs] by (simp add: Cons tok_def rest_def)
      have tk: "tokens (\<lambda>c. \<not> is_space c) s = tok # tokens (\<lambda>c. \<not> is_space c) rest"
        using False by (simp add: Cons tok_def rest_def)
      have lead: "(if s \<noteq> [] \<and> is_space (hd s) then '' '' else []) = []"
        using False by (simp add: Cons)
      show ?thesis
      proof (cases rest)
        case Nil
        have "\<forall>x \<in> set cs. \<not> is_space x" using Nil by (simp add: rest_def)
        then have tw: "takeWhile (\<lambda>c. \<not> is_space c) cs = cs"
          by (simp only: takeWhile_eq_all_conv)
        have "s = tok" unfolding Cons tok_def tw by (rule refl)
        then have "last s \<in> set tok" using tokne by simp
        then have nl: "\<not> is_space (last s)" by (rule tokns)
        have "replace_all_runs False [CSpace] '' '' s = tok"
          unfolding R Nil by simp
        moreover have "tokens (\<lambda>c. \<not> is_space c) s = [tok]"
          unfolding tk Nil by simp
        ultimately show ?thesis unfolding lead using nl by simp
      next
        case r: (Cons d ds)
        have rne: "rest \<noteq> []" using r by simp
        then have "\<not> \<not> is_space (hd rest)" unfolding rest_def by (rule hd_dropWhile)
        then have lead2: "(if rest \<noteq> [] \<and> is_space (hd rest) then '' '' else []) = '' ''"
          using rne by simp
        have len: "length rest < length s"
          using length_dropWhile_le[of "\<lambda>c. \<not> is_space c" cs] by (simp add: rest_def Cons)
        have ih: "replace_all_runs False [CSpace] '' '' rest
               = (if rest \<noteq> [] \<and> is_space (hd rest) then '' '' else [])
                 @ join '' '' (tokens (\<lambda>c. \<not> is_space c) rest)
                 @ (if tokens (\<lambda>c. \<not> is_space c) rest \<noteq> [] \<and> is_space (last rest)
                    then '' '' else [])"
          using len by (rule less.hyps)
        have l: "last s = last rest"
          using rne unfolding rest_def Cons by (rule last_dropWhile)
        show ?thesis
        proof (cases "tokens (\<lambda>c. \<not> is_space c) rest")
          case Nil
          then have "\<forall>c \<in> set rest. \<not> \<not> is_space c" by (simp only: tokens_none)
          moreover have "last rest \<in> set rest" using rne by simp
          ultimately have sl: "is_space (last rest)" by blast
          show ?thesis unfolding R ih lead lead2 tk l Nil using sl by simp
        next
          case t: (Cons w vs)
          show ?thesis unfolding R ih lead lead2 tk l t by simp
        qed
      qed
    qed
  qed
qed

lemma trim_exact:
  "\<exists>a b. s = a @ trim s @ b \<and> (\<forall>c \<in> set a. is_space c) \<and> (\<forall>c \<in> set b. is_space c)
     \<and> (trim s = [] \<or> \<not> is_space (hd (trim s)) \<and> \<not> is_space (last (trim s)))"
proof -
  define u where "u = dropWhile is_space s"
  define a where "a = takeWhile is_space s"
  define b where "b = rev (takeWhile is_space (rev u))"
  have "rev (takeWhile is_space (rev u) @ dropWhile is_space (rev u))
        = rev (dropWhile is_space (rev u)) @ rev (takeWhile is_space (rev u))"
    by (rule rev_append)
  then have "u = rev (dropWhile is_space (rev u)) @ rev (takeWhile is_space (rev u))"
    by (simp only: takeWhile_dropWhile_id rev_rev_ident)
  then have "u = trim s @ b" by (simp only: trim_def b_def u_def)
  moreover have "s = a @ u" by (simp add: a_def u_def)
  ultimately have 1: "s = a @ trim s @ b" by simp
  have 2: "\<forall>c \<in> set a. is_space c" unfolding a_def using set_takeWhileD by fastforce
  have 3: "\<forall>c \<in> set b. is_space c" unfolding b_def using set_takeWhileD by fastforce
  have 4: "trim s = [] \<or> \<not> is_space (hd (trim s)) \<and> \<not> is_space (last (trim s))"
    using trim_no_lead[of s] trim_no_trail[of s] by blast
  from 1 2 3 4 show ?thesis by blast
qed

section \<open>The claims\<close>

text \<open>
  C1.  For the three lines "Mr. NIKHIL SUREDRA PATIL (OPEN)", "Receipt No: 123456" and
  "June 27, 2025", parseCertificateText returns the student name "NIKHIL SUREDRA PATIL"
  (no parenthetical, no honorific) and the certificate number "123456", as the claim
  says.  The date it returns is "27, 2025": the month pattern that matches first captures
  only the day and the year, so the conversion to "27/06/2025" that the claim and the
  comments of the program promise does not happen.
\<close>

theorem receipt_scenario_result:
  "studentName (parseCertificateText
      ''Mr. NIKHIL SUREDRA PATIL (OPEN)\<newline>Receipt No: 123456\<newline>June 27, 2025'')
     = Some ''NIKHIL SUREDRA PATIL''
   \<and> certificateNumber (parseCertificateText
      ''Mr. NIKHIL SUREDRA PATIL (OPEN)\<newline>Receipt No: 123456\<newline>June 27, 2025'')
     = Some ''123456''
   \<and> dateIssued (parseCertificateText
      ''Mr. NIKHIL SUREDRA PATIL (OPEN)\<newline>Receipt No: 123456\<newline>June 27, 2025'')
     = Some ''27, 2025''"
  using parse_field_of_first[OF c1_clean c1_ne c1_name]
        parse_field_of_first[OF c1_clean c1_ne c1_cert]
        parse_field_of_first[OF c1_clean c1_ne c1_date]
  unfolding text1_def by simp

text \<open>
  C2.  The date handling of parseCertificateText on the two inputs of the claim.  The
  numeric date "15/08/2024" is returned unchanged.  For the input "June 27, 2025" the
  returned date is "27, 2025" and not "27/06/2025": the cleanup would convert a captured
  text that holds the month name (last conjunct), but the pattern captures "27, 2025"
  only, which splits into two parts, and the conversion needs three.
\<close>

theorem date_handling_result:
  "dateIssued (parseCertificateText ''June 27, 2025'') = Some ''27, 2025''
   \<and> dateIssued (parseCertificateText ''15/08/2024'') = Some ''15/08/2024''
   \<and> firstValue DateIssued (patterns DateIssued) ''June 27, 2025'' = Some ''27, 2025''
   \<and> cleanDate ''27, 2025'' = ''27, 2025''
   \<and> cleanDate ''June 27, 2025'' = ''27/06/2025''"
proof -
  have a: "dateIssued (parseCertificateText ''June 27, 2025'') = Some ''27, 2025''"
    using parse_field_of_first[OF c2_clean_a _ c2_date_a] by simp
  have b: "dateIssued (parseCertificateText ''15/08/2024'') = Some ''15/08/2024''"
    using parse_field_of_first[OF c2_clean_b _ c2_date_b] by simp
  have c: "cleanDate ''27, 2025'' = ''27, 2025''"
    by (simp add: pipe_eval char_eval)
  show ?thesis using a b c c2_date_a c2_cleanDate by simp
qed

text \<open>
  C3.  Fallback passes only fill gaps.  For every pass of the fallback stage, every
  field and every record: a field that holds a non-empty value before the pass holds the
  same value after it, so a pass assigns only fields that are absent (or empty, which
  the program treats as absent).  For every input text and every field: a value that the
  primary extractor has assigned is not empty, is still the value of the field after
  each prefix of the fallback passes, and is the value of the field in the result of
  parseCertificateText.
\<close>

theorem fallbacks_fill_gaps_only:
  "(\<forall>pass \<in> set (fallbackPasses c). truthy (getField f e) \<longrightarrow> getField f (pass e) = getField f e)
   \<and> (getField f (primaryExtract (splitLines (cleanText text))) = Some v \<longrightarrow>
        v \<noteq> []
        \<and> (\<forall>n. getField f (fold (\<lambda>pass e. pass e) (take n (fallbackPasses (cleanText text)))
                            (primaryExtract (splitLines (cleanText text)))) = Some v)
        \<and> getField f (parseCertificateText text) = Some v)"
proof (intro conjI ballI impI allI)
  fix pass assume "pass \<in> set (fallbackPasses c)" "truthy (getField f e)"
  then show "getField f (pass e) = getField f e" by (rule pass_keep)
next
  assume a: "getField f (primaryExtract (splitLines (cleanText text))) = Some v"
  then show "v \<noteq> []" using lineValue_nonempty by (simp add: primary_field)
next
  fix n
  assume a: "getField f (primaryExtract (splitLines (cleanText text))) = Some v"
  have t: "truthy (getField f (primaryExtract (splitLines (cleanText text))))"
    using a by (rule primary_truthy)
  have "set (take n (fallbackPasses (cleanText text))) \<subseteq> set (fallbackPasses (cleanText text))"
    by (rule set_take_subset)
  from fold_pass_keep[OF this t] a
  show "getField f (fold (\<lambda>pass e. pass e) (take n (fallbackPasses (cleanText text)))
                            (primaryExtract (splitLines (cleanText text)))) = Some v"
    by simp
next
  assume "getField f (primaryExtract (splitLines (cleanText text))) = Some v"
  then show "getField f (parseCertificateText text) = Some v" by (rule primary_kept)
qed

text \<open>
  The theorem at the text "15/08/2024", whose date the primary extractor assigns, and at
  a record with a date, run through the receipt-date pass on a text with another date.
\<close>

theorem fallbacks_fill_gaps_only_witness:
  "getField DateIssued (primaryExtract (splitLines (cleanText ''15/08/2024''))) = Some ''15/08/2024''
   \<and> getField DateIssued (parseCertificateText ''15/08/2024'') = Some ''15/08/2024''
   \<and> truthy (getField DateIssued (emptyParsed\<lparr>dateIssued := Some ''1/2/2020''\<rparr>))
   \<and> getField DateIssued
        (receiptDateFallback ''June 27, 2025'' (emptyParsed\<lparr>dateIssued := Some ''1/2/2020''\<rparr>))
       = Some ''1/2/2020''"
proof -
  have p: "receiptDateFallback ''June 27, 2025'' \<in> set (fallbackPasses ''June 27, 2025'')"
    by (simp add: fallbackPasses_def)
  have t: "truthy (getField DateIssued (emptyParsed\<lparr>dateIssued := Some ''1/2/2020''\<rparr>))"
    by (simp add: truthy_def)
  show ?thesis
    using fallbacks_fill_gaps_only[of "''June 27, 2025''" DateIssued
            "emptyParsed\<lparr>dateIssued := Some ''1/2/2020''\<rparr>" "''15/08/2024''" "''15/08/2024''"]
          p t c3_date
    by auto
qed

text \<open>
  C4, as the claim states it, fails.  On the text "name:SCHOOL (KHAN) Mr.XXALISCHOOL" the
  primary extractor finds no student name; the program, which runs the form-field pass
  before the receipt passes, returns the name "(KHAN)", and the order of the claim, with
  the form-field pass last, returns "XXALI".
\<close>

theorem spec_order_counterexample:
  "studentName (parseCertificateText ''name:SCHOOL (KHAN) Mr.XXALISCHOOL'') = Some ''(KHAN)''
   \<and> studentName (specOrderParse ''name:SCHOOL (KHAN) Mr.XXALISCHOOL'') = Some ''XXALI''
   \<and> parseCertificateText ''name:SCHOOL (KHAN) Mr.XXALISCHOOL''
       \<noteq> specOrderParse ''name:SCHOOL (KHAN) Mr.XXALISCHOOL''"
  using c4_code c4_spec unfolding text4_def by auto

text \<open>
  C4, amended.  After the primary extractor the fallback passes run in this order: the
  generic roll number pass, the generic institution pass, the form-field pass, the
  receipt-name pass and, last, the receipt-date pass.  The form-field pass runs before
  both receipt passes: a non-empty value that it leaves in a field is the value of that
  field after them.
\<close>

theorem fallback_order:
  "parseCertificateText text =
     receiptDateFallback (cleanText text)
       (receiptNameFallback (cleanText text)
         (extractFromFormFields (cleanText text)
           (institutionFallback (cleanText text)
             (rollFallback (cleanText text) (primaryExtract (splitLines (cleanText text)))))))
   \<and> (truthy (getField f (extractFromFormFields c e)) \<longrightarrow>
        getField f (receiptDateFallback c (receiptNameFallback c (extractFromFormFields c e)))
          = getField f (extractFromFormFields c e))"
proof (intro conjI impI)
  show "parseCertificateText text =
     receiptDateFallback (cleanText text)
       (receiptNameFallback (cleanText text)
         (extractFromFormFields (cleanText text)
           (institutionFallback (cleanText text)
             (rollFallback (cleanText text) (primaryExtract (splitLines (cleanText text)))))))"
    by (simp add: parseCertificateText_def Let_def)
next
  assume a: "truthy (getField f (extractFromFormFields c e))"
  then have n: "getField f (receiptNameFallback c (extractFromFormFields c e))
          = getField f (extractFromFormFields c e)"
    by (rule receiptNameFallback_keep)
  with a have "truthy (getField f (receiptNameFallback c (extractFromFormFields c e)))"
    by simp
  then have "getField f (receiptDateFallback c (receiptNameFallback c (extractFromFormFields c e)))
          = getField f (receiptNameFallback c (extractFromFormFields c e))"
    by (rule receiptDateFallback_keep)
  with n show "getField f (receiptDateFallback c (receiptNameFallback c (extractFromFormFields c e)))
          = getField f (extractFromFormFields c e)"
    by simp
qed

text \<open>
  The theorem at the text of the counterexample and the empty record: the form-field
  pass stores the name "(KHAN)", and the receipt passes keep it.
\<close>

theorem fallback_order_witness:
  "truthy (getField StudentName
      (extractFromFormFields ''name:SCHOOL (KHAN) Mr.XXALISCHOOL'' emptyParsed))
   \<and> getField StudentName
        (receiptDateFallback ''name:SCHOOL (KHAN) Mr.XXALISCHOOL''
          (receiptNameFallback ''name:SCHOOL (KHAN) Mr.XXALISCHOOL''
            (extractFromFormFields ''name:SCHOOL (KHAN) Mr.XXALISCHOOL'' emptyParsed)))
       = Some ''(KHAN)''"
proof -
  have nt: "\<not> truthy (getField StudentName emptyParsed)"
    by (simp add: emptyParsed_def truthy_def)
  have v: "getField StudentName (extractFromFormFields text4 emptyParsed) = Some ''(KHAN)''"
    using form_field[OF form_name_patterns nt, of text4] by (simp add: c4_form)
  then have t: "truthy (getField StudentName (extractFromFormFields text4 emptyParsed))"
    by (simp add: truthy_def)
  show ?thesis
    using fallback_order[of text4 StudentName text4 emptyParsed] v t
    unfolding text4_def by simp
qed

text \<open>
  C5.  For the line "XYZ Institute of Technology" followed on another line by
  "Mr. RAJESH KUMAR", parseCertificateText returns the student name "RAJESH KUMAR", with
  the honorific stripped, and this name contains neither "Institute" nor "Technology".
\<close>

theorem name_institution_disambiguation:
  "studentName (parseCertificateText ''XYZ Institute of Technology\<newline>Mr. RAJESH KUMAR'')
     = Some ''RAJESH KUMAR''
   \<and> (\<exists>name. studentName (parseCertificateText ''XYZ Institute of Technology\<newline>Mr. RAJESH KUMAR'')
                = Some name
        \<and> \<not> js_includes name ''Institute'' \<and> \<not> js_includes name ''Technology'')"
  using primary_kept[OF c5_primary] unfolding text5_def by simp

text \<open>
  C6, as the claim states it, fails: with the allow-list of the claim, which has no
  underscore, the underscore of the text "a_b" is outside the allow-list and survives
  into the cleaned text.
\<close>

theorem allow_list_counterexample:
  "\<not> (\<forall>c \<in> set (cleanText ''a_b''). in_class False specAllowList c)"
  using spec_underscore by (simp add: underscore_kept)

text \<open>
  C6, amended.  The allow-list of the program is \<open>[\w\s\-.,/:()]\<close>, and \<open>\w\<close> holds
  the underscore: a character is in the allow-list exactly when it is a letter A-Z or a-z,
  a digit, the underscore, white space or one of \<open>-.,/:()\<close>.  For every raw text \<open>raw\<close>
  and every text \<open>s\<close>:

  \<^item> the first replacement goes through the raw text character by character, keeps a
    character of the allow-list and writes a blank for any other character;
  \<^item> collapsing the white space of \<open>s\<close> gives the words of \<open>s\<close> (its maximal runs of
    characters other than white space) joined by single blanks, after one blank when \<open>s\<close>
    starts with white space and before one blank when \<open>s\<close> has a word and ends with white
    space;
  \<^item> trimming \<open>s\<close> removes white space only, at the two ends, and leaves none there;
    collapsing and then trimming \<open>s\<close> gives its words joined by single blanks;
  \<^item> so the cleaned text is exactly the maximal runs of kept characters of the raw text
    (characters of the allow-list that are not white space), in their order, joined by
    single blanks: every run of other characters and of white space between two of them
    has become one blank, and nothing stands before the first or after the last; each of
    these runs is non-empty and of kept characters, and together they are the kept
    characters of the raw text;
  \<^item> every character of the cleaned text is in the allow-list, and an underscore of the
    raw text is in the cleaned text; the characters of the cleaned text other than white
    space are the characters of the raw text that are in the allow-list and are not white
    space, in their order; the only white space of the cleaned text is the blank, no two
    blanks are adjacent, and the cleaned text is trimmed;
  \<^item> the cleaned text has no line when the raw text has no kept character, and otherwise
    it is itself its only line;
  \<^item> the lines of \<open>s\<close> are the non-empty ones among the trimmed pieces of \<open>s\<close>, where the
    pieces have no line break and joined by line breaks are \<open>s\<close>; every line is non-empty
    and trimmed.
\<close>

theorem cleanText_allow_list:
  "replace_all_class True allowList '' '' raw
     = map (\<lambda>c. if in_class False allowList c then c else CHR '' '') raw
   \<and> replace_all_runs False [CSpace] '' '' s
     = (if s \<noteq> [] \<and> is_space (hd s) then '' '' else [])
       @ join '' '' (tokens (\<lambda>c. \<not> is_space c) s)
       @ (if tokens (\<lambda>c. \<not> is_space c) s \<noteq> [] \<and> is_space (last s) then '' '' else [])
   \<and> (\<exists>a b. s = a @ trim s @ b \<and> (\<forall>c \<in> set a. is_space c) \<and> (\<forall>c \<in> set b. is_space c)
         \<and> (trim s = [] \<or> \<not> is_space (hd (trim s)) \<and> \<not> is_space (last (trim s))))
   \<and> trim (replace_all_runs False [CSpace] '' '' s)
     = join '' '' (tokens (\<lambda>c. \<not> is_space c) s)
   \<and> cleanText raw = join '' '' (tokens kept raw)
   \<and> (\<forall>w \<in> set (tokens kept raw). w \<noteq> [] \<and> (\<forall>c \<in> set w. kept c))
   \<and> concat (tokens kept raw) = filter kept raw
   \<and> (\<forall>c. in_class False allowList c
         = (in_range CHR ''A'' CHR ''Z'' c \<or> in_range CHR ''a'' CHR ''z'' c
            \<or> in_range CHR ''0'' CHR ''9'' c \<or> c = CHR ''_'' \<or> is_space c
            \<or> c \<in> set ''-.,/:()''))
   \<and> (\<forall>c \<in> set (cleanText raw). in_class False allowList c)
   \<and> (CHR ''_'' \<in> set raw \<longrightarrow> CHR ''_'' \<in> set (cleanText raw))
   \<and> filter (\<lambda>c. \<not> is_space c) (cleanText raw)
       = filter (\<lambda>c. in_class False allowList c \<and> \<not> is_space c) raw
   \<and> (\<forall>c \<in> set (cleanText raw). is_space c \<longrightarrow> c = CHR '' '')
   \<and> (\<forall>i. Suc i < length (cleanText raw) \<longrightarrow> is_space (cleanText raw ! i)
          \<longrightarrow> \<not> is_space (cleanText raw ! Suc i))
   \<and> trim (cleanText raw) = cleanText raw
   \<and> splitLines (cleanText raw)
       = (if tokens kept raw = [] then [] else [join '' '' (tokens kept raw)])
   \<and> (\<exists>pieces. join [CHR 0x0A] pieces = s \<and> (\<forall>p \<in> set pieces. CHR 0x0A \<notin> set p)
         \<and> splitLines s = filter (\<lambda>l. l \<noteq> []) (map trim pieces))
   \<and> (\<forall>line \<in> set (splitLines s). line \<noteq> [] \<and> trim line = line)"
proof -
  have 1: "replace_all_class True allowList '' '' raw
     = map (\<lambda>c. if in_class False allowList c then c else CHR '' '') raw"
    by (simp add: replace_class_map in_class_flip cong: if_cong)
  have 2: "replace_all_runs False [CSpace] '' '' s
     = (if s \<noteq> [] \<and> is_space (hd s) then '' '' else [])
       @ join '' '' (tokens (\<lambda>c. \<not> is_space c) s)
       @ (if tokens (\<lambda>c. \<not> is_space c) s \<noteq> [] \<and> is_space (last s) then '' '' else [])"
    by (rule runs_exact)
  have 3: "\<exists>a b. s = a @ trim s @ b \<and> (\<forall>c \<in> set a. is_space c) \<and> (\<forall>c \<in> set b. is_space c)
         \<and> (trim s = [] \<or> \<not> is_space (hd (trim s)) \<and> \<not> is_space (last (trim s)))"
    by (rule trim_exact)
  have 4: "trim (replace_all_runs False [CSpace] '' '' s)
     = join '' '' (tokens (\<lambda>c. \<not> is_space c) s)"
    by (rule trim_runs_tokens)
  have 5: "cleanText raw = join '' '' (tokens kept raw)"
    by (rule cleanText_tokens)
  have 6: "\<forall>w \<in> set (tokens kept raw). w \<noteq> [] \<and> (\<forall>c \<in> set w. kept c)"
    using tokens_nonempty by blast
  have 7: "concat (tokens kept raw) = filter kept raw"
    by (rule tokens_concat)
  have 8: "\<forall>c. in_class False allowList c
         = (in_range CHR ''A'' CHR ''Z'' c \<or> in_range CHR ''a'' CHR ''z'' c
            \<or> in_range CHR ''0'' CHR ''9'' c \<or> c = CHR ''_'' \<or> is_space c
            \<or> c \<in> set ''-.,/:()'')"
    using allowList_members by blast
  have 9: "\<forall>c \<in> set (cleanText raw). in_class False allowList c"
    using cleanText_allowed by (simp add: in_class_flip)
  have 10: "CHR ''_'' \<in> set raw \<longrightarrow> CHR ''_'' \<in> set (cleanText raw)"
    using underscore_survives by blast
  have 11: "filter (\<lambda>c. \<not> is_space c) (cleanText raw)
       = filter (\<lambda>c. in_class False allowList c \<and> \<not> is_space c) raw"
    by (simp add: cleanText_content in_class_flip)
  have 12: "\<forall>c \<in> set (cleanText raw). is_space c \<longrightarrow> c = CHR '' ''"
    using single_spaced_chars[OF single_spaced_clean] by blast
  have 13: "\<forall>i. Suc i < length (cleanText raw) \<longrightarrow> is_space (cleanText raw ! i)
          \<longrightarrow> \<not> is_space (cleanText raw ! Suc i)"
    using single_spaced_adjacent[OF single_spaced_clean] by blast
  have 14: "trim (cleanText raw) = cleanText raw"
    by (rule cleanText_trimmed)
  have 15: "splitLines (cleanText raw)
       = (if tokens kept raw = [] then [] else [join '' '' (tokens kept raw)])"
    by (rule splitLines_tokens)
  have 16: "\<exists>pieces. join [CHR 0x0A] pieces = s \<and> (\<forall>p \<in> set pieces. CHR 0x0A \<notin> set p)
         \<and> splitLines s = filter (\<lambda>l. l \<noteq> []) (map trim pieces)"
    by (rule lines_pieces)
  have 17: "\<forall>line \<in> set (splitLines s). line \<noteq> [] \<and> trim line = line"
    using lines_trimmed by blast
  from 1 2 3 4 5 6 7 8 9 10 11 12 13 14 15 16 17 show ?thesis by (intro conjI)
qed

text \<open>
  The theorem at the raw text "a@b  c_d" and at the text of the two lines "a " and " b"
  with an empty line between them: the at sign has become a blank and the underscore
  stays, the two adjacent blanks have become one, the cleaned text is "a b c_d" and is its
  only line; the second text collapses to "a b" and has the lines "a" and "b".
\<close>

theorem cleanText_allow_list_witness:
  "cleanText ''a@b  c_d'' = ''a b c_d''
   \<and> replace_all_class True allowList '' '' ''a@b  c_d'' = ''a b  c_d''
   \<and> tokens kept ''a@b  c_d'' = [''a'', ''b'', ''c_d'']
   \<and> join '' '' [''a'', ''b'', ''c_d''] = ''a b c_d''
   \<and> kept CHR ''c'' \<and> kept CHR ''_'' \<and> kept CHR ''d''
   \<and> \<not> in_class False allowList CHR ''@''
   \<and> CHR ''_'' \<in> set ''a@b  c_d'' \<and> CHR ''_'' \<in> set (cleanText ''a@b  c_d'')
   \<and> in_class False allowList CHR ''_''
   \<and> CHR '' '' \<in> set (cleanText ''a@b  c_d'') \<and> is_space CHR '' ''
   \<and> Suc 1 < length (cleanText ''a@b  c_d'') \<and> is_space (cleanText ''a@b  c_d'' ! 1)
   \<and> \<not> is_space (cleanText ''a@b  c_d'' ! Suc 1)
   \<and> splitLines (cleanText ''a@b  c_d'') = [''a b c_d'']
   \<and> replace_all_runs False [CSpace] '' '' ''a \<newline>\<newline> b'' = ''a b''
   \<and> tokens (\<lambda>c. \<not> is_space c) ''a \<newline>\<newline> b'' = [''a'', ''b'']
   \<and> splitLines ''a \<newline>\<newline> b'' = [''a'', ''b'']
   \<and> ''a'' \<in> set (splitLines ''a \<newline>\<newline> b'') \<and> trim ''a'' = ''a''"
proof -
  note T = cleanText_allow_list[of "''a@b  c_d''" "''a \<newline>\<newline> b''"]
  have t: "tokens kept ''a@b  c_d'' = [''a'', ''b'', ''c_d'']"
    by (simp add: kept_def allowList_def char_eval)
  have j: "join '' '' [''a'', ''b'', ''c_d''] = ''a b c_d''"
    by simp
  from T have "cleanText ''a@b  c_d'' = join '' '' (tokens kept ''a@b  c_d'')"
    by (elim conjE)
  then have k: "cleanText ''a@b  c_d'' = ''a b c_d''"
    by (simp only: t j)
  from T have "replace_all_class True allowList '' '' ''a@b  c_d''
     = map (\<lambda>c. if in_class False allowList c then c else CHR '' '') ''a@b  c_d''"
    by (elim conjE)
  moreover have "map (\<lambda>c. if in_class False allowList c then c else CHR '' '') ''a@b  c_d''
      = ''a b  c_d''"
    by (simp add: allowList_def char_eval)
  ultimately have r: "replace_all_class True allowList '' '' ''a@b  c_d'' = ''a b  c_d''"
    by (rule trans)
  from T have "\<forall>w \<in> set (tokens kept ''a@b  c_d''). w \<noteq> [] \<and> (\<forall>c \<in> set w. kept c)"
    by (elim conjE)
  moreover have "''c_d'' \<in> set (tokens kept ''a@b  c_d'')"
    unfolding t by simp
  ultimately have "\<forall>c \<in> set ''c_d''. kept c"
    by blast
  then have w: "kept CHR ''c'' \<and> kept CHR ''_'' \<and> kept CHR ''d''"
    by simp
  have a: "\<not> in_class False allowList CHR ''@''"
    by (simp add: allowList_def char_eval)
  have u0: "CHR ''_'' \<in> set ''a@b  c_d''"
    by simp
  from T have "CHR ''_'' \<in> set ''a@b  c_d'' \<longrightarrow> CHR ''_'' \<in> set (cleanText ''a@b  c_d'')"
    by (elim conjE)
  with u0 have u: "CHR ''_'' \<in> set (cleanText ''a@b  c_d'')"
    by (rule rev_mp)
  from T have "\<forall>c \<in> set (cleanText ''a@b  c_d''). in_class False allowList c"
    by (elim conjE)
  with u have v: "in_class False allowList CHR ''_''"
    by blast
  have b: "CHR '' '' \<in> set (cleanText ''a@b  c_d'')" "is_space CHR '' ''"
    by (simp_all add: k)
  have n: "Suc 1 < length (cleanText ''a@b  c_d'')" "is_space (cleanText ''a@b  c_d'' ! 1)"
    by (simp_all add: k)
  from T have "\<forall>i. Suc i < length (cleanText ''a@b  c_d'')
      \<longrightarrow> is_space (cleanText ''a@b  c_d'' ! i) \<longrightarrow> \<not> is_space (cleanText ''a@b  c_d'' ! Suc i)"
    by (elim conjE)
  with n have m: "\<not> is_space (cleanText ''a@b  c_d'' ! Suc 1)"
    by blast
  from T have "splitLines (cleanText ''a@b  c_d'')
       = (if tokens kept ''a@b  c_d'' = [] then [] else [join '' '' (tokens kept ''a@b  c_d'')])"
    by (elim conjE)
  then have l: "splitLines (cleanText ''a@b  c_d'') = [''a b c_d'']"
    unfolding t by simp
  have g: "tokens (\<lambda>c. \<not> is_space c) ''a \<newline>\<newline> b'' = [''a'', ''b'']"
    by (simp add: char_eval)
  have h: "replace_all_runs False [CSpace] '' '' ''a \<newline>\<newline> b'' = ''a b''"
    by (simp add: char_eval)
  have p: "splitLines ''a \<newline>\<newline> b'' = [''a'', ''b'']"
    by (simp add: splitLines_def trim_def char_eval)
  then have q: "''a'' \<in> set (splitLines ''a \<newline>\<newline> b'')"
    by simp
  from T have "\<forall>line \<in> set (splitLines ''a \<newline>\<newline> b''). line \<noteq> [] \<and> trim line = line"
    by (elim conjE)
  with q have x: "trim ''a'' = ''a''"
    by blast
  from k r t j w a u0 u v b n m l h g p q x show ?thesis
    by (intro conjI) (elim conjE, assumption)+
qed

text \<open>
  C7.  extractText on a file of type "application/pdf": the body of the \<open>try\<close> block
  throws the error "Unsupported file type. Please use image files (JPG, PNG, etc.)"
  before any call of the recognition engine, and the \<open>catch\<close> handler around it replaces
  that error; what the caller receives is the generic error "Failed to extract text from
  document. Please ensure the file is a valid image."  No recognition call is made.
\<close>

theorem unsupported_type_generic_error:
  "tryBlock env \<lparr>fileType = ''application/pdf''\<rparr> =
     (Inl (Error ''Unsupported file type. Please use image files (JPG, PNG, etc.)''), 0)
   \<and> extractText env \<lparr>fileType = ''application/pdf''\<rparr> =
     (Inl (Error ''Failed to extract text from document. Please ensure the file is a valid image.''), 0)"
  by (simp add: extractText_def tryBlock_def isValidFileType_def validTypes_def char_eval)

text \<open>
  C8.  validateExtractedData requires studentName, at least one of studentRoll and
  certificateNumber, and institutionName.  Each missing requirement contributes exactly one
  message, so the number of messages is the number of missing requirements; isValid holds
  exactly when the error list is empty; the empty record is invalid with exactly the three
  messages; a record with studentName, studentRoll and institutionName is valid with no
  message.
\<close>

theorem validateExtractedData_complete:
  "length (errors (validateExtractedData d)) =
      (if truthy (studentName d) then 0 else 1)
    + (if truthy (studentRoll d) \<or> truthy (certificateNumber d) then 0 else 1)
    + (if truthy (institutionName d) then 0 else 1)
   \<and> isValid (validateExtractedData d) = (errors (validateExtractedData d) = [])
   \<and> validateExtractedData emptyParsed =
       \<lparr>isValid = False,
        errors = [''Student name not found'',
                  ''Roll number or certificate number not found'',
                  ''Institution name not found'']\<rparr>
   \<and> validateExtractedData
        (emptyParsed\<lparr>studentName := Some ''A'', studentRoll := Some ''B'',
                      institutionName := Some ''C''\<rparr>) =
       \<lparr>isValid = True, errors = []\<rparr>"
  by (simp add: validateExtractedData_def emptyParsed_def truthy_def Let_def)

text \<open>
  C9.  Normalisation is idempotent: for every raw text, normalising the cleaned text
  again gives the same cleaned text and the same lines.
\<close>

theorem normalization_idempotent:
  "cleanText (cleanText x) = cleanText x
   \<and> splitLines (cleanText (cleanText x)) = splitLines (cleanText x)"
  by (simp add: cleanText_idem)

text \<open>
  C10.  For every input text the cleaned text holds no line break, and the lines built
  from it are the cleaned text as one line when it is not empty and no line otherwise.
  So the primary extractor runs the pattern loop of every field on the whole cleaned
  text.
\<close>

theorem lines_at_most_one:
  "splitLines (cleanText text) = (if cleanText text = [] then [] else [cleanText text])
   \<and> length (splitLines (cleanText text)) \<le> 1
   \<and> CHR 0x0A \<notin> set (cleanText text)
   \<and> primaryExtract (splitLines (cleanText text)) =
       (if cleanText text = [] then emptyParsed
        else fold (\<lambda>f e. patternLoop f (patterns f) (cleanText text) e) patternFields emptyParsed)"
  by (simp add: splitLines_clean cleanText_no_newline primaryExtract_def lineLoop_nil
      lineLoop_single fold_skip)

end
